theory Spec2Isabelle
  imports Complex_Main "HOL-Library.Word" "HOL-Library.Signed_Division" "HOL-Library.Sublist"
begin

unbundle bit_operations_syntax

section \<open>Smart Home Monitor (ESP32): data model\<close>

text \<open>
  The sketch keeps all of its state in module-wide variables. They are collected in one
  record, one field per variable, with the source's names. On the ESP32 \<open>int\<close> and
  \<open>long\<close> are 32 bits wide, \<open>unsigned long\<close> (the type of \<open>millis()\<close>) is a 32-bit
  unsigned word, \<open>int16_t\<close> a 16-bit word read as two's complement and \<open>byte\<close> an 8-bit
  word. A \<open>float\<close> is modelled by the real number it stands for, and every \<open>float\<close>
  operation of the source by the exact operation followed by the rounding \<open>fl\<close> to the
  nearest single-precision number (section on single-precision arithmetic below).
\<close>

type_synonym u8 = "8 word"
type_synonym i16 = "16 word"
type_synonym u32 = "32 word"

record monitor =
  displayOk :: bool
  page :: u8
  lastPageMs :: u32
  hasAHT :: bool
  hasMPU :: bool
  tempC :: real
  humP :: real
  mqRaw :: int
  mqBase :: int
  mqDirty :: int
  ax :: i16
  ay :: i16
  az :: i16
  accInitialized :: bool
  axE :: real
  ayE :: real
  azE :: real
  magE :: real
  dynE :: real
  noiseE :: real
  shakeUntilMs :: u32
  lastSendMs :: u32

text \<open>The values the variables are initialised with, before \<open>setup()\<close> runs.\<close>

definition power_on :: monitor where
  "power_on = \<lparr> displayOk = False, page = 0, lastPageMs = 0, hasAHT = False,
     hasMPU = False, tempC = 25, humP = 50, mqRaw = 0, mqBase = 0, mqDirty = 0,
     ax = 0, ay = 0, az = 0, accInitialized = False, axE = 0, ayE = 0, azE = 0,
     magE = 0, dynE = 0, noiseE = 0, shakeUntilMs = 0, lastSendMs = 0 \<rparr>"

subsection \<open>Constants of the sketch\<close>

definition THINGSPEAK_SEND_INTERVAL_MS :: u32 where "THINGSPEAK_SEND_INTERVAL_MS = 5000"
definition OLED_PAGE_INTERVAL_MS :: u32 where "OLED_PAGE_INTERVAL_MS = 3000"
definition PAGE_COUNT :: u8 where "PAGE_COUNT = 3"
definition MQ_SPAN :: int where "MQ_SPAN = 250"
definition MQ_FLOOR_PCT :: int where "MQ_FLOOR_PCT = 1"
definition MIN_QUAKE_COUNTS :: int where "MIN_QUAKE_COUNTS = 70"
definition NOISE_MULT :: real where "NOISE_MULT = 5"
definition SHAKE_HOLD_MS :: u32 where "SHAKE_HOLD_MS = 300"

subsection \<open>32-bit signed arithmetic\<close>

text \<open>
  A result of \<open>int\<close> or \<open>long\<close> arithmetic is reduced to 32 bits, two's complement.
  \<open>sdiv\<close> is the division of C, which truncates towards zero.
\<close>

definition int32 :: "int \<Rightarrow> int" where
  "int32 n = signed_take_bit 31 n"

text \<open>Arduino's macro \<open>constrain(amt, low, high)\<close>.\<close>

definition constrain :: "int \<Rightarrow> int \<Rightarrow> int \<Rightarrow> int" where
  "constrain amt low high = (if amt < low then low else if amt > high then high else amt)"

subsection \<open>Single-precision arithmetic\<close>

text \<open>
  \<open>rne\<close> rounds a real number to the nearest integer, a tie to the even one. \<open>fl x\<close>
  is the single-precision number nearest to \<open>x\<close>: 24 significant bits, the exponent
  not below -126 (so that small results lose precision gradually). Results too large
  for the format are not modelled; no value of the sketch comes near them. The
  operations \<open>+\<close>, \<open>-\<close>, \<open>*\<close>, \<open>/\<close> and \<open>sqrtf\<close> on \<open>float\<close> round their exact result.
\<close>

definition rne :: "real \<Rightarrow> int" where
  "rne y = (let f = \<lfloor>y\<rfloor>; r = y - of_int f
            in if r < 1 / 2 then f else if 1 / 2 < r then f + 1
               else if even f then f else f + 1)"

definition fl :: "real \<Rightarrow> real" where
  "fl x = (if x = 0 then 0
           else let e = max \<lfloor>log 2 \<bar>x\<bar>\<rfloor> (- 126); u = 2 powr (of_int e - 23)
                in u * of_int (rne (x / u)))"

definition fadd :: "real \<Rightarrow> real \<Rightarrow> real" where "fadd a b = fl (a + b)"
definition fsub :: "real \<Rightarrow> real \<Rightarrow> real" where "fsub a b = fl (a - b)"
definition fmul :: "real \<Rightarrow> real \<Rightarrow> real" where "fmul a b = fl (a * b)"
definition fdiv :: "real \<Rightarrow> real \<Rightarrow> real" where "fdiv a b = fl (a / b)"
definition fsqrt :: "real \<Rightarrow> real" where "fsqrt a = fl (sqrt a)"

text \<open>The \<open>float\<close> constants of the sketch: the literals \<open>0.10f\<close>, \<open>0.02f\<close>, \<open>0.25f\<close>, \<open>0.01f\<close>.\<close>

definition ACC_EMA_ALPHA :: real where "ACC_EMA_ALPHA = fl (10 / 100)"
definition MAG_ALPHA :: real where "MAG_ALPHA = fl (2 / 100)"
definition DYN_ALPHA :: real where "DYN_ALPHA = fl (25 / 100)"
definition NOISE_ALPHA :: real where "NOISE_ALPHA = fl (1 / 100)"

section \<open>Gas sensor: baseline calibration and air-quality percentage\<close>

text \<open>
  \<open>calibrateMQBaseline\<close> reads the ADC 220 times. The readings are an input of the
  model: \<open>adc i\<close> is what the \<open>i\<close>-th call of \<open>analogRead(MQ_PIN)\<close> returns.
\<close>

function sum_loop :: "(nat \<Rightarrow> int) \<Rightarrow> nat \<Rightarrow> int \<Rightarrow> int" where
  "sum_loop adc i sum_acc =
     (if i < 220 then sum_loop adc (Suc i) (int32 (sum_acc + adc i)) else sum_acc)"
  by pat_completeness auto
termination
  by (relation "measure (\<lambda>(adc, i, sum_acc). 220 - i)") auto

declare sum_loop.simps [simp del]

definition calibrateMQBaseline :: "(nat \<Rightarrow> int) \<Rightarrow> monitor \<Rightarrow> monitor" where
  "calibrateMQBaseline adc s =
     (let sum_acc = sum_loop adc 0 0;
          base = int32 (sum_acc sdiv 220);
          dirty = constrain (int32 (base + MQ_SPAN)) (int32 (base + 1)) 1023
      in s\<lparr>mqBase := base, mqDirty := dirty\<rparr>)"

definition calcAirPct :: "monitor \<Rightarrow> int \<Rightarrow> int" where
  "calcAirPct s raw =
     (if mqDirty s \<le> mqBase s then MQ_FLOOR_PCT
      else
        let raw' = constrain raw (mqBase s) (mqDirty s);
            pct = int32 (int32 (int32 (raw' - mqBase s) * 100)
                         sdiv int32 (mqDirty s - mqBase s));
            ip = constrain pct 0 100
        in if ip = 0 then MQ_FLOOR_PCT else ip)"

section \<open>Sensor acquisition over the I2C bus\<close>

text \<open>
  The bus itself is outside the sketch. What a read depends on is the content of the
  receive buffer after \<open>Wire.requestFrom\<close>: the list \<open>rx\<close> of the bytes that arrived, so
  that \<open>Wire.available()\<close> is \<open>length rx\<close> and successive calls of \<open>Wire.read()\<close> return
  its elements in order.
\<close>

definition clampf :: "real \<Rightarrow> real \<Rightarrow> real \<Rightarrow> real" where
  "clampf v lo hi = (if v < lo then lo else if v > hi then hi else v)"

definition readAHT10 :: "u8 list \<Rightarrow> monitor \<Rightarrow> monitor" where
  "readAHT10 rx s =
     (if length rx \<noteq> 6 then s
      else
        let d0 = rx ! 0; d1 = rx ! 1; d2 = rx ! 2; d3 = rx ! 3; d4 = rx ! 4; d5 = rx ! 5 in
        if d0 AND 0x80 \<noteq> 0 then s
        else
          let h_raw :: u32 = push_bit 12 (ucast d1) OR push_bit 4 (ucast d2)
                             OR ucast (drop_bit 4 d3);
              t_raw :: u32 = push_bit 16 (ucast d3 AND 0x0F) OR push_bit 8 (ucast d4)
                             OR ucast d5;
              h = fdiv (fmul (fl (real (unat h_raw))) 100) 1048576;
              t = fsub (fdiv (fmul (fl (real (unat t_raw))) 200) 1048576) 50
          in s\<lparr>humP := clampf h 0 100, tempC := clampf t (- 40) 85\<rparr>)"

text \<open>
  \<open>readMPU6050Raw\<close> returns when fewer than 6 bytes are available; otherwise each axis
  is the high byte shifted left by 8 bits, or-ed with the low byte, stored in an \<open>int16_t\<close>.
\<close>

definition be16 :: "u8 \<Rightarrow> u8 \<Rightarrow> i16" where
  "be16 hi lo = push_bit 8 (ucast hi) OR ucast lo"

definition readMPU6050Raw :: "u8 list \<Rightarrow> monitor \<Rightarrow> monitor" where
  "readMPU6050Raw rx s =
     (if length rx < 6 then s
      else s\<lparr>ax := be16 (rx ! 0) (rx ! 1), ay := be16 (rx ! 2) (rx ! 3),
             az := be16 (rx ! 4) (rx ! 5)\<rparr>)"

section \<open>Motion anomaly detector\<close>

text \<open>\<open>isShakeActive now s\<close> is the source's \<open>isShakeActive()\<close> when \<open>millis()\<close> returns \<open>now\<close>.\<close>

definition isShakeActive :: "u32 \<Rightarrow> monitor \<Rightarrow> bool" where
  "isShakeActive now s = (now < shakeUntilMs s)"

text \<open>The conversion \<open>(float)ax\<close> of a 16-bit signed reading, which is exact.\<close>

definition to_float :: "i16 \<Rightarrow> real" where
  "to_float w = real_of_int (sint w)"

definition magnitude :: "i16 \<Rightarrow> i16 \<Rightarrow> i16 \<Rightarrow> real" where
  "magnitude x y z =
     fsqrt (fadd (fadd (fmul (to_float x) (to_float x)) (fmul (to_float y) (to_float y)))
                 (fmul (to_float z) (to_float z)))"

text \<open>
  \<open>updateMotion rx t_active t_trigger s\<close>: one call of \<open>updateMotion()\<close>, where \<open>rx\<close> is
  what the accelerometer sent, \<open>t_active\<close> is the value of \<open>millis()\<close> inside
  \<open>isShakeActive()\<close> and \<open>t_trigger\<close> its value when \<open>shakeUntilMs\<close> is set.
\<close>

definition updateMotion :: "u8 list \<Rightarrow> u32 \<Rightarrow> u32 \<Rightarrow> monitor \<Rightarrow> monitor" where
  "updateMotion rx t_active t_trigger s0 =
     (if \<not> hasMPU s0 then s0
      else
        let s = readMPU6050Raw rx s0 in
        if \<not> accInitialized s then
          s\<lparr>axE := to_float (ax s), ayE := to_float (ay s), azE := to_float (az s),
            magE := magnitude (ax s) (ay s) (az s),
            dynE := 0, noiseE := 0, accInitialized := True\<rparr>
        else
          let axE' = fadd (fmul (fsub 1 ACC_EMA_ALPHA) (axE s))
                          (fmul ACC_EMA_ALPHA (to_float (ax s)));
              ayE' = fadd (fmul (fsub 1 ACC_EMA_ALPHA) (ayE s))
                          (fmul ACC_EMA_ALPHA (to_float (ay s)));
              azE' = fadd (fmul (fsub 1 ACC_EMA_ALPHA) (azE s))
                          (fmul ACC_EMA_ALPHA (to_float (az s)));
              mag = magnitude (ax s) (ay s) (az s);
              magE' = fadd (fmul (fsub 1 MAG_ALPHA) (magE s)) (fmul MAG_ALPHA mag);
              dyn = \<bar>fsub mag magE'\<bar>;
              dynE' = fadd (fmul (fsub 1 DYN_ALPHA) (dynE s)) (fmul DYN_ALPHA dyn);
              noiseE' = (if \<not> isShakeActive t_active s
                         then fadd (fmul (fsub 1 NOISE_ALPHA) (noiseE s))
                                   (fmul NOISE_ALPHA dynE')
                         else noiseE s);
              th0 = fmul noiseE' NOISE_MULT;
              th = (if th0 < real_of_int MIN_QUAKE_COUNTS
                    then real_of_int MIN_QUAKE_COUNTS else th0)
          in s\<lparr>axE := axE', ayE := ayE', azE := azE', magE := magE', dynE := dynE',
               noiseE := noiseE',
               shakeUntilMs := (if dynE' > th then t_trigger + SHAKE_HOLD_MS
                                else shakeUntilMs s)\<rparr>)"

text \<open>
  A run of the detector: one \<open>updateMotion\<close> per element, each with what the sensor
  sent and the two clock readings of that call.
\<close>

fun feed :: "(u8 list \<times> u32 \<times> u32) list \<Rightarrow> monitor \<Rightarrow> monitor" where
  "feed [] s = s"
| "feed ((rx, t_active, t_trigger) # steps) s =
     feed steps (updateMotion rx t_active t_trigger s)"

text \<open>The detector before its first sample, as the initialisers leave it.\<close>

definition uninitialized :: "monitor \<Rightarrow> bool" where
  "uninitialized s =
     (\<not> accInitialized s \<and> dynE s = 0 \<and> noiseE s = 0 \<and> shakeUntilMs s = 0)"

text \<open>
  The states the detector can be in: either the first sample has been taken, or the
  accumulators and the hold time still have their initial values.
\<close>

definition detector_ok :: "monitor \<Rightarrow> bool" where
  "detector_ok s = (accInitialized s \<or> uninitialized s)"

text \<open>
  \<open>steady rx s\<close>: nothing has moved so far while the sensor keeps sending \<open>rx\<close>. No
  hold time was set, the deviation \<open>dynE\<close> is between 0 and 5 and the noise floor between
  0 and 6; once the first sample is in, reading \<open>rx\<close> again gives the axes the state
  holds, and the magnitude baseline is within 4 counts of their magnitude.
\<close>

definition steady :: "u8 list \<Rightarrow> monitor \<Rightarrow> bool" where
  "steady rx s =
     (shakeUntilMs s = 0 \<and> 0 \<le> dynE s \<and> dynE s \<le> 5 \<and> 0 \<le> noiseE s \<and> noiseE s \<le> 6 \<and>
      (\<not> accInitialized s \<or>
       (ax (readMPU6050Raw rx s) = ax s \<and> ay (readMPU6050Raw rx s) = ay s \<and>
        az (readMPU6050Raw rx s) = az s \<and>
        \<bar>magE s - magnitude (ax s) (ay s) (az s)\<bar> \<le> 4)))"


text \<open>
  Three concrete states. \<open>resting\<close>: the detector after one sample (0, 0, 16384), the
  sensor lying flat with gravity on the z axis. \<open>side_knock\<close>: the next sample is
  (2000, 0, 16384), 2000 more on the x axis, read at time 1000. \<open>axial_knock\<close>: the next
  sample is (0, 0, 18384), 2000 more on the z axis, read at time 1000.
\<close>

definition resting :: monitor where
  "resting = feed [([0, 0, 0, 0, 0x40, 0], 5, 5)] (power_on\<lparr>hasMPU := True\<rparr>)"


definition axial_knock :: monitor where
  "axial_knock = updateMotion [0, 0, 0, 0, 0x47, 0xD0] 1000 1000 resting"

text \<open>
  \<open>late_knock\<close>: as \<open>axial_knock\<close>, read when \<open>millis()\<close> is 100 ms before its 32-bit
  counter wraps around.
\<close>

definition late_knock :: monitor where
  "late_knock = updateMotion [0, 0, 0, 0, 0x47, 0xD0] 0xFFFFFF9C 0xFFFFFF9C resting"

section \<open>Report encoder\<close>

definition THINGSPEAK_URL :: string where
  "THINGSPEAK_URL = ''http://api.thingspeak.com/update''"

definition THINGSPEAK_API_KEY :: string where
  "THINGSPEAK_API_KEY = ''YOUR_THINGSPEAK_WRITE_API''"

text \<open>\<open>String(int)\<close>: the decimal digits, after a minus sign for a negative number.\<close>

definition digit_char :: "nat \<Rightarrow> char" where
  "digit_char d =
     (if d = 0 then CHR ''0'' else if d = 1 then CHR ''1'' else if d = 2 then CHR ''2''
      else if d = 3 then CHR ''3'' else if d = 4 then CHR ''4'' else if d = 5 then CHR ''5''
      else if d = 6 then CHR ''6'' else if d = 7 then CHR ''7'' else if d = 8 then CHR ''8''
      else CHR ''9'')"

function dec_nat :: "nat \<Rightarrow> string" where
  "dec_nat n = (if n < 10 then [digit_char n] else dec_nat (n div 10) @ [digit_char (n mod 10)])"
  by pat_completeness auto
termination
  by (relation "measure (\<lambda>n. n)") auto

declare dec_nat.simps [simp del]

definition String_int :: "int \<Rightarrow> string" where
  "String_int n = (if n < 0 then CHR ''-'' # dec_nat (nat (- n)) else dec_nat (nat n))"

text \<open>
  \<open>sendToThingSpeak String_float wifi now s\<close> is the URL the sketch requests, or \<open>None\<close>
  when it returns before building one. \<open>String_float\<close> stands for the library's
  \<open>String(float, 1)\<close>, \<open>wifi\<close> for \<open>WiFi.status() == WL_CONNECTED\<close> and \<open>now\<close> for the
  value of \<open>millis()\<close> inside \<open>isShakeActive()\<close>. The function changes no variable of the
  sketch.
\<close>

definition sendToThingSpeak :: "(real \<Rightarrow> string) \<Rightarrow> bool \<Rightarrow> u32 \<Rightarrow> monitor \<Rightarrow> string option" where
  "sendToThingSpeak String_float wifi now s =
     (if \<not> wifi then None
      else
        let airPct = calcAirPct s (mqRaw s);
            shake = (if isShakeActive now s then 1 else 0);
            url = THINGSPEAK_URL @ ''?api_key='' @ THINGSPEAK_API_KEY;
            url = (if hasAHT s
                   then (url @ (''&field1='' @ String_float (tempC s)))
                          @ (''&field2='' @ String_float (humP s))
                   else url);
            url = url @ (''&field3='' @ String_int airPct);
            url = url @ (''&field4='' @ String_int shake);
            url = url @ (''&field5='' @ String_int (mqRaw s))
        in Some url)"

text \<open>Whether \<open>p\<close> occurs in a string as a contiguous piece.\<close>

fun has_substr :: "string \<Rightarrow> string \<Rightarrow> bool" where
  "has_substr p [] = (p = [])"
| "has_substr p (c # cs) = (prefix p (c # cs) \<or> has_substr p cs)"

text \<open>The part of the URL before the fields, and a state to evaluate the encoder at.\<close>

definition url_head :: string where
  "url_head = THINGSPEAK_URL @ ''?api_key='' @ THINGSPEAK_API_KEY"

definition sample_state :: monitor where
  "sample_state = power_on\<lparr>mqBase := 100, mqDirty := 350, mqRaw := 225\<rparr>"

section \<open>Start-up and main loop\<close>

text \<open>
  \<open>setup_run\<close> is the source's \<open>setup()\<close>: the probes of the display and of the two I2C sensors, the ADC readings of
  the calibration and the two readings of \<open>millis()\<close> are inputs.
\<close>

definition setup_run :: "bool \<Rightarrow> bool \<Rightarrow> bool \<Rightarrow> (nat \<Rightarrow> int) \<Rightarrow> u32 \<Rightarrow> u32 \<Rightarrow> monitor" where
  "setup_run disp aht mpu adc t0 t1 =
     (calibrateMQBaseline adc (power_on\<lparr>displayOk := disp, hasAHT := aht, hasMPU := mpu\<rparr>))
       \<lparr>lastSendMs := t0 - THINGSPEAK_SEND_INTERVAL_MS, lastPageMs := t1\<rparr>"

text \<open>What one iteration of \<open>loop()\<close> reads from outside the sketch.\<close>

record env =
  now :: u32
  aht_rx :: "u8 list"
  adc_raw :: int
  mpu_rx :: "u8 list"
  t_active :: u32
  t_trigger :: u32
  wifi :: bool
  t_send :: u32

text \<open>
  One iteration of \<open>loop()\<close> up to the rendering of the display page, which changes no
  variable: the new state and the URL requested in this iteration, if any.
\<close>

definition loop :: "(real \<Rightarrow> string) \<Rightarrow> env \<Rightarrow> monitor \<Rightarrow> monitor \<times> string option" where
  "loop String_float e s0 =
     (let s1 = (if now e - lastPageMs s0 \<ge> OLED_PAGE_INTERVAL_MS
                then s0\<lparr>lastPageMs := now e,
                        page := of_nat ((unat (page s0) + 1) mod unat PAGE_COUNT)\<rparr>
                else s0);
          s2 = (if hasAHT s1 then readAHT10 (aht_rx e) s1 else s1);
          s3 = s2\<lparr>mqRaw := adc_raw e\<rparr>;
          s4 = updateMotion (mpu_rx e) (t_active e) (t_trigger e) s3
      in if now e - lastSendMs s4 \<ge> THINGSPEAK_SEND_INTERVAL_MS
         then (s4\<lparr>lastSendMs := now e\<rparr>, sendToThingSpeak String_float (wifi e) (t_send e) s4)
         else (s4, None))"

section \<open>Properties of the air-quality percentage\<close>

lemma int32_id: "- (2 ^ 31) \<le> n \<Longrightarrow> n < 2 ^ 31 \<Longrightarrow> int32 n = n"
  by (simp add: int32_def signed_take_bit_int_eq_self)

lemma constrain_range: "lo \<le> hi \<Longrightarrow> lo \<le> constrain x lo hi \<and> constrain x lo hi \<le> hi"
  by (simp add: constrain_def)

lemma int32_0: "int32 0 = 0"
  by (simp add: int32_def)

lemma calcAirPct_range: "1 \<le> calcAirPct s raw \<and> calcAirPct s raw \<le> 100"
  by (simp add: calcAirPct_def MQ_FLOOR_PCT_def constrain_def Let_def)

lemma calcAirPct_at_floor: "calcAirPct s (mqBase s) = MQ_FLOOR_PCT"
  by (simp add: calcAirPct_def constrain_def Let_def int32_0)

lemma sdiv_nonneg: "0 \<le> a \<Longrightarrow> 0 < b \<Longrightarrow> a sdiv b = a div (b::int)"
  by (simp add: signed_divide_int_def sgn_if)

text \<open>
  C4. For every raw reading and every baseline (in particular every baseline within
  0..1023), the percentage \<open>calcAirPct\<close> computes lies between 1 and 100, so it is never
  0, and a raw reading equal to the floor \<open>mqBase\<close> gives the fixed minimum
  \<open>MQ_FLOOR_PCT\<close>, which is 1.
\<close>

theorem calcAirPct_in_1_100:
  "1 \<le> calcAirPct s raw \<and> calcAirPct s raw \<le> 100 \<and> calcAirPct s raw \<noteq> 0
   \<and> calcAirPct s (mqBase s) = MQ_FLOOR_PCT \<and> MQ_FLOOR_PCT = 1"
proof -
  have "1 \<le> calcAirPct s raw" "calcAirPct s raw \<le> 100"
    using calcAirPct_range [of s raw] by simp_all
  then show ?thesis
    by (simp add: calcAirPct_at_floor) (simp add: MQ_FLOOR_PCT_def)
qed

lemma calcAirPct_degenerate: "mqDirty s \<le> mqBase s \<Longrightarrow> calcAirPct s raw = MQ_FLOOR_PCT"
  by (simp add: calcAirPct_def)

lemma calcAirPct_below_floor: "raw \<le> mqBase s \<Longrightarrow> calcAirPct s raw = MQ_FLOOR_PCT"
  by (simp add: calcAirPct_def constrain_def Let_def int32_0)

lemma calcAirPct_above_ceiling:
  assumes lt: "mqBase s < mqDirty s" and span: "(mqDirty s - mqBase s) * 100 < 2 ^ 31"
    and raw: "mqDirty s \<le> raw"
  shows "calcAirPct s raw = 100"
proof -
  define d where "d = mqDirty s - mqBase s"
  have d: "0 < d" "d * 100 < 2 ^ 31" using lt span by (simp_all add: d_def)
  have c: "constrain raw (mqBase s) (mqDirty s) = mqDirty s"
    using lt raw by (simp add: constrain_def)
  have w1: "int32 d = d" using d by (intro int32_id) simp_all
  have w2: "int32 (d * 100) = d * 100" using d by (intro int32_id) simp_all
  have q: "(d * 100) sdiv d = 100" using d by (simp add: sdiv_nonneg)
  have w3: "int32 100 = 100" by (intro int32_id) simp_all
  have "calcAirPct s raw =
        (let pct = int32 (int32 (int32 d * 100) sdiv int32 d); ip = constrain pct 0 100
         in if ip = 0 then MQ_FLOOR_PCT else ip)"
    using lt by (simp add: calcAirPct_def c d_def Let_def)
  then show ?thesis by (simp add: w1 w2 q w3 constrain_def)
qed

text \<open>
  C5. A baseline is a pair of floor and ceiling with \<open>0 \<le> mqBase < mqDirty \<le> 1023\<close>
  (the invariant of the baseline in the data model). For every such baseline, every raw
  reading at or below the floor gives the fixed minimum \<open>MQ_FLOOR_PCT\<close>, which is 1, and
  every raw reading at or above the ceiling gives 100.
\<close>

theorem calcAirPct_floor_and_ceiling:
  assumes "0 \<le> mqBase s" and "mqBase s < mqDirty s" and "mqDirty s \<le> 1023"
  shows "(raw \<le> mqBase s \<longrightarrow> calcAirPct s raw = MQ_FLOOR_PCT)
       \<and> (mqDirty s \<le> raw \<longrightarrow> calcAirPct s raw = 100)
       \<and> MQ_FLOOR_PCT = 1"
proof -
  have span: "(mqDirty s - mqBase s) * 100 < 2 ^ 31" using assms by simp
  show ?thesis
    using calcAirPct_below_floor [of raw s]
          calcAirPct_above_ceiling [OF assms(2) span, of raw]
    by (simp add: MQ_FLOOR_PCT_def)
qed

theorem calcAirPct_floor_and_ceiling_witness:
  "calcAirPct (power_on\<lparr>mqBase := 100, mqDirty := 350\<rparr>) 50 = 1
   \<and> calcAirPct (power_on\<lparr>mqBase := 100, mqDirty := 350\<rparr>) 400 = 100"
proof -
  have a: "calcAirPct (power_on\<lparr>mqBase := 100, mqDirty := 350\<rparr>) 50 = 1"
    using calcAirPct_floor_and_ceiling [of "power_on\<lparr>mqBase := 100, mqDirty := 350\<rparr>" 50]
    by simp
  have b: "calcAirPct (power_on\<lparr>mqBase := 100, mqDirty := 350\<rparr>) 400 = 100"
    using calcAirPct_floor_and_ceiling [of "power_on\<lparr>mqBase := 100, mqDirty := 350\<rparr>" 400]
    by simp
  show ?thesis by (simp only: a b)
qed

text \<open>
  Outside that invariant, at a baseline without a positive span, the guard at the head
  of \<open>calcAirPct\<close> gives the fixed minimum for every raw reading (lemma
  \<open>calcAirPct_degenerate\<close>).
\<close>

section \<open>Properties of the baseline calibration\<close>

lemma sum_loop_eq:
  assumes r: "\<forall>k<220. 0 \<le> adc k \<and> adc k \<le> 1023"
  shows "i \<le> 220 \<Longrightarrow> 0 \<le> a \<Longrightarrow> a \<le> 1023 * int i \<Longrightarrow>
         sum_loop adc i a = a + (\<Sum>k = i..<220. adc k)"
proof (induction "220 - i" arbitrary: i a)
  case 0
  then have "i = 220" by simp
  then show ?case by (simp add: sum_loop.simps [of adc 220 a])
next
  case (Suc n)
  then have lt: "i < 220" by simp
  with r have b: "0 \<le> adc i" "adc i \<le> 1023" by simp_all
  have w: "int32 (a + adc i) = a + adc i"
    using b Suc.prems lt by (intro int32_id) auto
  have "sum_loop adc i a = sum_loop adc (Suc i) (a + adc i)"
    using lt w by (simp add: sum_loop.simps [of adc i a])
  also have "\<dots> = (a + adc i) + (\<Sum>k = Suc i..<220. adc k)"
    using Suc.hyps(2) Suc.prems lt b by (intro Suc.hyps(1)) auto
  also have "\<dots> = a + (\<Sum>k = i..<220. adc k)"
    using lt by (simp add: sum.atLeast_Suc_lessThan)
  finally show ?case .
qed

lemma sum_adc_bounds:
  fixes adc :: "nat \<Rightarrow> int"
  assumes r: "\<forall>k<220. 0 \<le> adc k \<and> adc k \<le> 1023"
  shows "0 \<le> (\<Sum>k = 0..<220. adc k) \<and> (\<Sum>k = 0..<220. adc k) \<le> 225060"
proof -
  have "(\<Sum>k = 0..<220. adc k) \<le> (\<Sum>k = 0..<(220::nat). (1023::int))"
    using r by (intro sum_mono) simp
  moreover have "0 \<le> (\<Sum>k = 0..<220. adc k)"
    using r by (intro sum_nonneg) simp
  ultimately show ?thesis by simp
qed

lemma calibrate_fields:
  assumes r: "\<forall>k<220. 0 \<le> adc k \<and> adc k \<le> 1023"
  shows "mqBase (calibrateMQBaseline adc s) = (\<Sum>k = 0..<220. adc k) div 220"
    and "mqDirty (calibrateMQBaseline adc s) = min (mqBase (calibrateMQBaseline adc s) + 250) 1023"
proof -
  let ?t = "\<Sum>k = 0..<220. adc k"
  have t: "sum_loop adc 0 0 = ?t" using sum_loop_eq [OF r, of 0 0] by simp
  have tb: "0 \<le> ?t" "?t \<le> 225060" using sum_adc_bounds [OF r] by simp_all
  have d: "?t sdiv 220 = ?t div 220" using tb by (simp add: sdiv_nonneg)
  have db: "0 \<le> ?t div 220" "?t div 220 \<le> 1023" using tb by simp_all
  have w1: "int32 (?t div 220) = ?t div 220" using db by (intro int32_id) simp_all
  have w2: "int32 (?t div 220 + 250) = ?t div 220 + 250" using db by (intro int32_id) simp_all
  have w3: "int32 (?t div 220 + 1) = ?t div 220 + 1" using db by (intro int32_id) simp_all
  show "mqBase (calibrateMQBaseline adc s) = ?t div 220"
    by (simp add: calibrateMQBaseline_def Let_def t d w1)
  show "mqDirty (calibrateMQBaseline adc s) = min (mqBase (calibrateMQBaseline adc s) + 250) 1023"
    by (simp add: calibrateMQBaseline_def Let_def t d w1 w2 w3 MQ_SPAN_def constrain_def min_def)
qed

lemma sum_adc_full_iff:
  fixes adc :: "nat \<Rightarrow> int"
  assumes r: "\<forall>k<220. 0 \<le> adc k \<and> adc k \<le> 1023"
  shows "(\<Sum>k = 0..<220. adc k) < 225060 \<longleftrightarrow> (\<exists>k<220. adc k \<noteq> 1023)"
proof
  assume "(\<Sum>k = 0..<220. adc k) < 225060"
  show "\<exists>k<220. adc k \<noteq> 1023"
  proof (rule ccontr)
    assume "\<not> (\<exists>k<220. adc k \<noteq> 1023)"
    then have "(\<Sum>k = 0..<220. adc k) = (\<Sum>k = 0..<(220::nat). (1023::int))"
      by (intro sum.cong) auto
    with \<open>(\<Sum>k = 0..<220. adc k) < 225060\<close> show False by simp
  qed
next
  assume "\<exists>k<220. adc k \<noteq> 1023"
  then obtain k where k: "k < 220" "adc k \<noteq> 1023" by blast
  with r have "adc k < 1023" by (metis order_le_neq_trans)
  with k r have "(\<Sum>k = 0..<220. adc k) < (\<Sum>k = 0..<(220::nat). (1023::int))"
    by (intro sum_strict_mono_ex1) auto
  then show "(\<Sum>k = 0..<220. adc k) < 225060" by simp
qed

text \<open>
  C7, as the code has it. With all 220 readings within 0..1023, the calibrated baseline
  satisfies \<open>0 \<le> mqBase \<le> mqDirty \<le> 1023\<close>, and the ceiling is strictly above the
  floor exactly when some reading is not 1023.
\<close>

theorem calibrate_baseline_range:
  assumes r: "\<forall>k<220. 0 \<le> adc k \<and> adc k \<le> 1023"
  shows "0 \<le> mqBase (calibrateMQBaseline adc s)
       \<and> mqBase (calibrateMQBaseline adc s) \<le> mqDirty (calibrateMQBaseline adc s)
       \<and> mqDirty (calibrateMQBaseline adc s) \<le> 1023
       \<and> (mqBase (calibrateMQBaseline adc s) < mqDirty (calibrateMQBaseline adc s)
            \<longleftrightarrow> (\<exists>k<220. adc k \<noteq> 1023))"
proof -
  let ?t = "\<Sum>k = 0..<220. adc k"
  have tb: "0 \<le> ?t" "?t \<le> 225060" using sum_adc_bounds [OF r] by simp_all
  have b: "mqBase (calibrateMQBaseline adc s) = ?t div 220"
    by (rule calibrate_fields(1) [OF r])
  have d: "mqDirty (calibrateMQBaseline adc s) = min (?t div 220 + 250) 1023"
    using calibrate_fields(2) [OF r, of s] b by simp
  have db: "0 \<le> ?t div 220" "?t div 220 \<le> 1023" using tb by simp_all
  define q where "q = ?t div 220"
  define E where "E = (\<exists>k<220. adc k \<noteq> 1023)"
  have "q < 1023 \<longleftrightarrow> ?t < 225060" unfolding q_def by linarith
  then have qE: "q < 1023 \<longleftrightarrow> E"
    using sum_adc_full_iff [OF r] by (simp add: E_def)
  have qb: "0 \<le> q" "q \<le> 1023" using db by (simp_all add: q_def)
  have "0 \<le> q \<and> q \<le> min (q + 250) 1023 \<and> min (q + 250) 1023 \<le> 1023
        \<and> (q < min (q + 250) 1023 \<longleftrightarrow> E)"
    using qb qE by (auto simp: min_def)
  then show ?thesis unfolding q_def E_def b d .
qed

theorem calibrate_baseline_range_witness:
  "mqBase (calibrateMQBaseline (\<lambda>k. if k = 0 then 3 else 1023) power_on)
     < mqDirty (calibrateMQBaseline (\<lambda>k. if k = 0 then 3 else 1023) power_on)
   \<and> mqDirty (calibrateMQBaseline (\<lambda>k. if k = 0 then 3 else 1023) power_on) \<le> 1023"
proof -
  have h: "\<forall>k<220. 0 \<le> (if k = 0 then 3 else 1023 :: int) \<and> (if k = 0 then 3 else 1023 :: int) \<le> 1023"
    by simp
  have e: "\<exists>k<220::nat. (if k = 0 then 3 else 1023 :: int) \<noteq> 1023"
    by (rule exI [of _ 0]) simp
  show ?thesis
    using calibrate_baseline_range [OF h, of power_on] e by simp
qed

text \<open>
  C7, as stated, fails when every reading is 1023: the floor is 1023 and the ceiling,
  clamped at 1023, is not above it.
\<close>

theorem calibrate_saturated_counterexample:
  "\<not> (mqBase (calibrateMQBaseline (\<lambda>k. 1023) power_on)
        < mqDirty (calibrateMQBaseline (\<lambda>k. 1023) power_on))"
proof -
  have h: "\<forall>k<220::nat. 0 \<le> (1023::int) \<and> (1023::int) \<le> 1023" by simp
  have "mqBase (calibrateMQBaseline (\<lambda>k. 1023) power_on) = 1023"
    using calibrate_fields(1) [of "\<lambda>k. 1023" power_on] by simp
  moreover have "mqDirty (calibrateMQBaseline (\<lambda>k. 1023) power_on) \<le> 1023"
    using calibrate_fields(2) [of "\<lambda>k. 1023" power_on] by simp
  ultimately show ?thesis by simp
qed

text \<open>
  C8. When all 220 readings have the same value \<open>v\<close> within 0..1023, calibration sets
  \<open>mqBase\<close> to \<open>v\<close> and \<open>mqDirty\<close> to \<open>v + MQ_SPAN\<close> clamped at 1023, where \<open>MQ_SPAN\<close> is 250.
\<close>

theorem calibrate_constant:
  assumes c: "\<forall>k<220. adc k = v" and v: "0 \<le> v" "v \<le> 1023"
  shows "mqBase (calibrateMQBaseline adc s) = v
       \<and> mqDirty (calibrateMQBaseline adc s) = min (v + MQ_SPAN) 1023
       \<and> MQ_SPAN = 250"
proof -
  have r: "\<forall>k<220. 0 \<le> adc k \<and> adc k \<le> 1023" using c v by simp
  have "(\<Sum>k = 0..<220. adc k) = (\<Sum>k = 0..<(220::nat). v)"
    using c by (intro sum.cong) auto
  then have t: "(\<Sum>k = 0..<220. adc k) = 220 * v" by simp
  have b: "mqBase (calibrateMQBaseline adc s) = v"
    using calibrate_fields(1) [OF r, of s] t by simp
  show ?thesis
    using calibrate_fields(2) [OF r, of s] b by (simp add: MQ_SPAN_def)
qed

theorem calibrate_constant_witness:
  "mqBase (calibrateMQBaseline (\<lambda>k. 512) power_on) = 512
   \<and> mqDirty (calibrateMQBaseline (\<lambda>k. 512) power_on) = 762
   \<and> mqDirty (calibrateMQBaseline (\<lambda>k. 900) power_on) = 1023"
proof -
  have "mqBase (calibrateMQBaseline (\<lambda>k. 512) power_on) = 512
        \<and> mqDirty (calibrateMQBaseline (\<lambda>k. 512) power_on) = min (512 + MQ_SPAN) 1023
        \<and> MQ_SPAN = 250"
    using calibrate_constant [of "\<lambda>k. 512" 512 power_on] by simp
  then have a: "mqBase (calibrateMQBaseline (\<lambda>k. 512) power_on) = 512"
    and b: "mqDirty (calibrateMQBaseline (\<lambda>k. 512) power_on) = min (512 + 250) 1023"
    by (simp_all only:)
  have "mqBase (calibrateMQBaseline (\<lambda>k. 900) power_on) = 900
        \<and> mqDirty (calibrateMQBaseline (\<lambda>k. 900) power_on) = min (900 + MQ_SPAN) 1023
        \<and> MQ_SPAN = 250"
    using calibrate_constant [of "\<lambda>k. 900" 900 power_on] by simp
  then have c: "mqDirty (calibrateMQBaseline (\<lambda>k. 900) power_on) = min (900 + 250) 1023"
    by (simp only:)
  have m: "min (512 + 250) 1023 = (762::int)" "min (900 + 250) 1023 = (1023::int)"
    by simp_all
  show ?thesis
    by (simp only: a b c m)
qed

section \<open>Properties of the sensor reads\<close>

lemma readAHT10_wrong_count: "length rx \<noteq> 6 \<Longrightarrow> readAHT10 rx s = s"
  by (simp add: readAHT10_def)

lemma readAHT10_busy: "length rx = 6 \<Longrightarrow> rx ! 0 AND 0x80 \<noteq> 0 \<Longrightarrow> readAHT10 rx s = s"
  by (simp add: readAHT10_def Let_def)

lemma readMPU6050Raw_short: "length rx < 6 \<Longrightarrow> readMPU6050Raw rx s = s"
  by (simp add: readMPU6050Raw_def)

text \<open>
  C10. A read that finds the wrong number of bytes (not exactly 6 for the AHT10, fewer
  than 6 for the MPU6050), or finds the busy bit of the AHT10 set, returns the state it
  was given: \<open>tempC\<close> and \<open>humP\<close>, or \<open>ax\<close>, \<open>ay\<close> and \<open>az\<close>, keep their values, and
  no other variable is written, so nothing records the failure.
\<close>

theorem read_failure_keeps_values:
  "(length rx \<noteq> 6 \<longrightarrow> readAHT10 rx s = s)
   \<and> (length rx = 6 \<and> rx ! 0 AND 0x80 \<noteq> 0 \<longrightarrow> readAHT10 rx s = s)
   \<and> (length rx < 6 \<longrightarrow> readMPU6050Raw rx s = s)"
  using readAHT10_wrong_count [of rx s] readAHT10_busy [of rx s] readMPU6050Raw_short [of rx s]
  by blast

theorem read_failure_keeps_values_witness:
  "readAHT10 [1, 2, 3] power_on = power_on
   \<and> readAHT10 [0x80, 0, 0, 0, 0, 0] power_on = power_on
   \<and> readMPU6050Raw [1, 2, 3, 4, 5] power_on = power_on"
proof -
  have "readAHT10 [1, 2, 3] power_on = power_on"
    using read_failure_keeps_values [of "[1, 2, 3]" power_on] by simp
  moreover have "readAHT10 [0x80, 0, 0, 0, 0, 0] power_on = power_on"
    using read_failure_keeps_values [of "[0x80, 0, 0, 0, 0, 0]" power_on] by simp
  moreover have "readMPU6050Raw [1, 2, 3, 4, 5] power_on = power_on"
    using read_failure_keeps_values [of "[1, 2, 3, 4, 5]" power_on] by simp
  ultimately show ?thesis by blast
qed

section \<open>Properties of single-precision rounding\<close>

lemma rne_error: "\<bar>of_int (rne y) - y\<bar> \<le> 1 / 2"
proof -
  have "of_int \<lfloor>y\<rfloor> \<le> y" "y < of_int \<lfloor>y\<rfloor> + 1" by linarith+
  then show ?thesis by (auto simp: rne_def Let_def)
qed

lemma rne_nonneg: "0 \<le> y \<Longrightarrow> 0 \<le> rne y"
  by (auto simp: rne_def Let_def)


lemma fl_0: "fl 0 = 0" by (simp add: fl_def)

lemma fl_nonneg: "0 \<le> x \<Longrightarrow> 0 \<le> fl x"
  by (auto simp: fl_def Let_def intro!: mult_nonneg_nonneg rne_nonneg divide_nonneg_nonneg)

lemma fl_error: "\<bar>fl x - x\<bar> \<le> \<bar>x\<bar> / 2 ^ 24 + 2 powr (- 150)"
proof (cases "x = 0")
  case True
  then show ?thesis by (simp add: fl_0)
next
  case False
  define e where "e = max \<lfloor>log 2 \<bar>x\<bar>\<rfloor> (- 126)"
  define u :: real where "u = 2 powr (of_int e - 23)"
  have u0: "0 < u" by (simp add: u_def)
  have f: "fl x = u * of_int (rne (x / u))"
    using False by (simp add: fl_def Let_def e_def u_def)
  have "fl x - x = u * (of_int (rne (x / u)) - x / u)"
    using u0 by (simp add: f field_simps)
  then have "\<bar>fl x - x\<bar> = u * \<bar>of_int (rne (x / u)) - x / u\<bar>"
    using u0 by (simp add: abs_mult)
  also have "\<dots> \<le> u * (1 / 2)"
    using u0 rne_error [of "x / u"] by (intro mult_left_mono) simp_all
  finally have h: "\<bar>fl x - x\<bar> \<le> u / 2" by simp
  show ?thesis
  proof (cases "- 126 \<le> \<lfloor>log 2 \<bar>x\<bar>\<rfloor>")
    case True
    then have "e = \<lfloor>log 2 \<bar>x\<bar>\<rfloor>" by (simp add: e_def)
    then have "of_int e \<le> log 2 \<bar>x\<bar>" by simp
    then have "2 powr of_int e \<le> 2 powr log 2 \<bar>x\<bar>" by (simp only: powr_le_cancel_iff)
    then have "2 powr of_int e \<le> \<bar>x\<bar>" using False by simp
    moreover have "u = 2 powr of_int e / 2 ^ 23"
      by (simp add: u_def powr_diff)
    ultimately have "u \<le> \<bar>x\<bar> / 2 ^ 23" by (simp add: divide_right_mono)
    then have "u / 2 \<le> \<bar>x\<bar> / 2 ^ 24" by simp
    moreover define t :: real where "t = 2 powr (- 150)"
    moreover have "0 \<le> t" by (simp add: t_def)
    ultimately have "\<bar>fl x - x\<bar> \<le> \<bar>x\<bar> / 2 ^ 24 + t" using h by linarith
    then show ?thesis by (simp only: t_def)
  next
    case False
    then have "e = - 126" by (simp add: e_def)
    then have "u = 2 powr (- 149)" by (simp add: u_def)
    then have "u / 2 = 2 powr (- 149 - 1)" by (simp only: powr_diff) simp
    then have "u / 2 = 2 powr (- 150)" by simp
    moreover have "0 \<le> \<bar>x\<bar> / 2 ^ 24" by simp
    ultimately show ?thesis using h by linarith
  qed
qed

lemma fl_abs: "\<bar>x\<bar> \<le> 131072 \<Longrightarrow> \<bar>fl x - x\<bar> \<le> 1 / 100"
proof -
  assume "\<bar>x\<bar> \<le> 131072"
  then have "\<bar>x\<bar> / 2 ^ 24 \<le> 131072 / 2 ^ 24" by (simp add: divide_right_mono)
  moreover have "(2::real) powr (- 150) \<le> 2 powr (- 10)" by (intro powr_mono) simp_all
  moreover have "(2::real) powr (- 10) = 1 / 1024" by (simp add: powr_minus_divide)
  ultimately show ?thesis using fl_error [of x] by simp
qed



lemma tiny_bound: "(2::real) powr (- 150) \<le> 1 / 1000000000000"
proof -
  have "(2::real) powr (- 150) \<le> 2 powr (- 40)" by (intro powr_mono) simp_all
  moreover have "(2::real) powr (- 40) = 1 / 2 ^ 40" by (simp add: powr_minus_divide)
  moreover have "(1::real) / 2 ^ 40 \<le> 1 / 1000000000000" by simp
  ultimately show ?thesis by linarith
qed

lemma fl_small: "\<bar>x\<bar> \<le> 1 \<Longrightarrow> \<bar>fl x - x\<bar> \<le> 1 / 10000000"
proof -
  assume "\<bar>x\<bar> \<le> 1"
  then have "\<bar>x\<bar> / 2 ^ 24 \<le> 1 / 2 ^ 24" by (simp add: divide_right_mono)
  then show ?thesis using fl_error [of x] tiny_bound by simp
qed

lemma fl_big: "\<bar>x\<bar> \<le> 4294967296 \<Longrightarrow> \<bar>fl x - x\<bar> \<le> 257"
proof -
  assume "\<bar>x\<bar> \<le> 4294967296"
  then have "\<bar>x\<bar> / 2 ^ 24 \<le> 4294967296 / 2 ^ 24" by (simp add: divide_right_mono)
  then show ?thesis using fl_error [of x] tiny_bound by simp
qed

section \<open>Properties of the motion anomaly detector\<close>

lemma read_frame:
  "accInitialized (readMPU6050Raw rx s) = accInitialized s"
  "hasMPU (readMPU6050Raw rx s) = hasMPU s"
  "noiseE (readMPU6050Raw rx s) = noiseE s"
  "dynE (readMPU6050Raw rx s) = dynE s"
  "magE (readMPU6050Raw rx s) = magE s"
  "shakeUntilMs (readMPU6050Raw rx s) = shakeUntilMs s"
  by (simp_all add: readMPU6050Raw_def)

lemma isShakeActive_read: "isShakeActive t (readMPU6050Raw rx s) = isShakeActive t s"
  by (simp add: isShakeActive_def read_frame)

lemma not_active_at_zero: "shakeUntilMs s = 0 \<Longrightarrow> \<not> isShakeActive t s"
  by (simp add: isShakeActive_def)

lemma updateMotion_noise:
  "noiseE (updateMotion rx ta tt s) =
     (if \<not> hasMPU s then noiseE s
      else if \<not> accInitialized s then 0
      else if isShakeActive ta s then noiseE s
      else fadd (fmul (fsub 1 NOISE_ALPHA) (noiseE s))
                (fmul NOISE_ALPHA (dynE (updateMotion rx ta tt s))))"
  by (simp add: updateMotion_def Let_def read_frame isShakeActive_read)

lemma updateMotion_hasMPU: "hasMPU (updateMotion rx ta tt s) = hasMPU s"
  by (simp add: updateMotion_def Let_def read_frame)

lemma updateMotion_init:
  "accInitialized (updateMotion rx ta tt s) = (hasMPU s \<or> accInitialized s)"
  by (simp add: updateMotion_def Let_def read_frame)

lemma detector_ok_updateMotion: "detector_ok s \<Longrightarrow> detector_ok (updateMotion rx ta tt s)"
  by (auto simp: detector_ok_def uninitialized_def updateMotion_def Let_def read_frame)

lemma detector_ok_power_on: "detector_ok power_on"
  by (simp add: detector_ok_def uninitialized_def power_on_def)

lemma detector_ok_feed: "detector_ok s \<Longrightarrow> detector_ok (feed steps s)"
  by (induction steps arbitrary: s) (auto simp: detector_ok_updateMotion)

text \<open>
  C1. In every state the detector can be in, an update executed while the detector is
  active (\<open>isShakeActive\<close> at the clock reading of that update) leaves \<open>noiseE\<close> exactly as
  it was. An update of an initialised detector executed while it is not active sets
  \<open>noiseE\<close> to the single-precision value of \<open>(1 - NOISE_ALPHA) * noiseE + NOISE_ALPHA * dynE\<close>,
  with the new \<open>dynE\<close> and \<open>NOISE_ALPHA\<close> the literal \<open>0.01f\<close>. So \<open>noiseE\<close> is blended only by
  updates executed while not active.
\<close>

theorem noise_floor_frozen_while_active:
  assumes ok: "detector_ok s"
  shows "(isShakeActive ta s \<longrightarrow> noiseE (updateMotion rx ta tt s) = noiseE s)
       \<and> (\<not> isShakeActive ta s \<and> hasMPU s \<and> accInitialized s \<longrightarrow>
            noiseE (updateMotion rx ta tt s)
              = fadd (fmul (fsub 1 NOISE_ALPHA) (noiseE s))
                     (fmul NOISE_ALPHA (dynE (updateMotion rx ta tt s))))
       \<and> NOISE_ALPHA = fl (1 / 100)"
proof -
  have act: "isShakeActive ta s \<Longrightarrow> accInitialized s"
    using ok by (auto simp: detector_ok_def uninitialized_def isShakeActive_def)
  show ?thesis
    using act by (auto simp: updateMotion_noise [of rx ta tt s] NOISE_ALPHA_def)
qed

theorem noise_floor_frozen_while_active_witness:
  "noiseE (updateMotion [0, 0, 0, 0, 0x40, 0] 100 100
      (power_on\<lparr>hasMPU := True, accInitialized := True, noiseE := 3, shakeUntilMs := 500\<rparr>)) = 3"
proof -
  let ?s = "power_on\<lparr>hasMPU := True, accInitialized := True, noiseE := 3, shakeUntilMs := 500\<rparr>"
  have ok: "detector_ok ?s" by (simp add: detector_ok_def)
  have act: "isShakeActive 100 ?s" by (simp add: isShakeActive_def)
  have n: "noiseE ?s = 3" by simp
  show ?thesis
    using noise_floor_frozen_while_active [OF ok, of 100 "[0, 0, 0, 0, 0x40, 0]" 100] act n
    by (simp only:)
qed

subsection \<open>Bounds for one update\<close>

lemma read_axes:
  "ax (readMPU6050Raw rx s) = (if length rx < 6 then ax s else be16 (rx ! 0) (rx ! 1))"
  "ay (readMPU6050Raw rx s) = (if length rx < 6 then ay s else be16 (rx ! 2) (rx ! 3))"
  "az (readMPU6050Raw rx s) = (if length rx < 6 then az s else be16 (rx ! 4) (rx ! 5))"
  by (simp_all add: readMPU6050Raw_def)

lemma updateMotion_axes:
  "ax (updateMotion rx ta tt s) = (if hasMPU s then ax (readMPU6050Raw rx s) else ax s)"
  "ay (updateMotion rx ta tt s) = (if hasMPU s then ay (readMPU6050Raw rx s) else ay s)"
  "az (updateMotion rx ta tt s) = (if hasMPU s then az (readMPU6050Raw rx s) else az s)"
  by (simp_all add: updateMotion_def Let_def)

lemma updateMotion_magE:
  "magE (updateMotion rx ta tt s) =
     (if \<not> hasMPU s then magE s
      else if \<not> accInitialized s
        then magnitude (ax (readMPU6050Raw rx s)) (ay (readMPU6050Raw rx s)) (az (readMPU6050Raw rx s))
      else fadd (fmul (fsub 1 MAG_ALPHA) (magE s))
                (fmul MAG_ALPHA (magnitude (ax (readMPU6050Raw rx s)) (ay (readMPU6050Raw rx s))
                           (az (readMPU6050Raw rx s)))))"
  by (simp add: updateMotion_def Let_def read_frame)

lemma updateMotion_dynE:
  "dynE (updateMotion rx ta tt s) =
     (if \<not> hasMPU s then dynE s
      else if \<not> accInitialized s then 0
      else fadd (fmul (fsub 1 DYN_ALPHA) (dynE s))
                (fmul DYN_ALPHA
                   \<bar>fsub (magnitude (ax (readMPU6050Raw rx s)) (ay (readMPU6050Raw rx s))
                               (az (readMPU6050Raw rx s)))
                         (magE (updateMotion rx ta tt s))\<bar>))"
  by (simp add: updateMotion_def Let_def read_frame)

lemma updateMotion_shake:
  "shakeUntilMs (updateMotion rx ta tt s) =
     (if \<not> hasMPU s \<or> \<not> accInitialized s then shakeUntilMs s
      else if dynE (updateMotion rx ta tt s)
              > max (fmul (noiseE (updateMotion rx ta tt s)) NOISE_MULT)
                    (real_of_int MIN_QUAKE_COUNTS)
        then tt + SHAKE_HOLD_MS else shakeUntilMs s)"
  by (simp add: updateMotion_def Let_def read_frame max_def not_less)


lemma fl_mid: "\<bar>x\<bar> \<le> 262144 \<Longrightarrow> \<bar>fl x - x\<bar> \<le> 1 / 50"
proof -
  assume "\<bar>x\<bar> \<le> 262144"
  then have "\<bar>x\<bar> / 2 ^ 24 \<le> 262144 / 2 ^ 24" by (simp add: divide_right_mono)
  then show ?thesis using fl_error [of x] tiny_bound by simp
qed

lemma fl_rel: "\<bar>x\<bar> \<le> B \<Longrightarrow> \<bar>fl x - x\<bar> \<le> B / 16777216 + 1 / 1000000000000"
proof -
  assume "\<bar>x\<bar> \<le> B"
  then have "\<bar>x\<bar> / 2 ^ 24 \<le> B / 2 ^ 24" by (simp add: divide_right_mono)
  then show ?thesis using fl_error [of x] tiny_bound by simp
qed

text \<open>One exponential moving average in single precision, against the exact one.\<close>

lemma ema_rel:
  assumes A: "A = fl a" and a: "0 \<le> a" "a \<le> 1"
    and v: "\<bar>v\<bar> \<le> B" and w: "\<bar>w\<bar> \<le> B"
  shows "\<bar>fadd (fmul (fsub 1 A) v) (fmul A w) - ((1 - a) * v + a * w)\<bar>
         \<le> B / 1000000 + 1 / 10000000"
proof -
  define c where "c = fsub 1 A"
  have B0: "0 \<le> B" using v by linarith
  have A0: "0 \<le> A" unfolding A using a(1) by (rule fl_nonneg)
  have Ae: "\<bar>A - a\<bar> \<le> 1 / 10000000" unfolding A using a by (intro fl_small) simp
  have "\<bar>1 - A\<bar> \<le> 1" using A0 Ae a by linarith
  then have "\<bar>c - (1 - A)\<bar> \<le> 1 / 10000000" unfolding c_def fsub_def by (rule fl_small)
  then have ce: "\<bar>c - (1 - a)\<bar> \<le> 2 / 10000000" using Ae by linarith
  have "\<bar>(c - (1 - a)) * v\<bar> \<le> (2 / 10000000) * B"
    unfolding abs_mult using ce v by (intro mult_mono) simp_all
  then have cv: "\<bar>c * v - (1 - a) * v\<bar> \<le> B * 2 / 10000000" by (simp add: algebra_simps)
  have "\<bar>(A - a) * w\<bar> \<le> (1 / 10000000) * B"
    unfolding abs_mult using Ae w by (intro mult_mono) simp_all
  then have aw: "\<bar>A * w - a * w\<bar> \<le> B / 10000000" by (simp add: algebra_simps)
  have "\<bar>(1 - a) * v\<bar> \<le> 1 * B"
    unfolding abs_mult using a v by (intro mult_mono) simp_all
  then have cvb: "\<bar>c * v\<bar> \<le> B * 11 / 10" using cv B0 by linarith
  have "\<bar>a * w\<bar> \<le> 1 * B"
    unfolding abs_mult using a w by (intro mult_mono) simp_all
  then have awb: "\<bar>A * w\<bar> \<le> B * 11 / 10" using aw B0 by linarith
  have r1: "\<bar>fl (c * v) - c * v\<bar> \<le> (B * 11 / 10) / 16777216 + 1 / 1000000000000"
    using cvb by (rule fl_rel)
  have r2: "\<bar>fl (A * w) - A * w\<bar> \<le> (B * 11 / 10) / 16777216 + 1 / 1000000000000"
    using awb by (rule fl_rel)
  have "\<bar>fl (c * v) + fl (A * w)\<bar> \<le> B * 3 + 1"
    using r1 r2 cvb awb B0 by linarith
  then have r3: "\<bar>fl (fl (c * v) + fl (A * w)) - (fl (c * v) + fl (A * w))\<bar>
                 \<le> (B * 3 + 1) / 16777216 + 1 / 1000000000000"
    by (rule fl_rel)
  define P0 where "P0 = (1 - a) * v"
  define Q0 where "Q0 = a * w"
  define P where "P = c * v"
  define Q where "Q = A * w"
  define p where "p = fl P"
  define q where "q = fl Q"
  define X where "X = fl (p + q)"
  have "\<bar>p - P\<bar> \<le> (B * 11 / 10) / 16777216 + 1 / 1000000000000"
    "\<bar>q - Q\<bar> \<le> (B * 11 / 10) / 16777216 + 1 / 1000000000000"
    "\<bar>X - (p + q)\<bar> \<le> (B * 3 + 1) / 16777216 + 1 / 1000000000000"
    "\<bar>P - P0\<bar> \<le> B * 2 / 10000000" "\<bar>Q - Q0\<bar> \<le> B / 10000000"
    using r1 r2 r3 cv aw by (simp_all only: P0_def Q0_def P_def Q_def p_def q_def X_def)
  note e = this
  have tri: "\<bar>X - (P0 + Q0)\<bar>
             \<le> \<bar>X - (p + q)\<bar> + \<bar>p - P\<bar> + \<bar>q - Q\<bar> + \<bar>P - P0\<bar> + \<bar>Q - Q0\<bar>"
    by linarith
  have "\<bar>X - (p + q)\<bar> + \<bar>p - P\<bar> + \<bar>q - Q\<bar> + \<bar>P - P0\<bar> + \<bar>Q - Q0\<bar>
        \<le> ((B * 3 + 1) / 16777216 + 1 / 1000000000000)
          + ((B * 11 / 10) / 16777216 + 1 / 1000000000000)
          + ((B * 11 / 10) / 16777216 + 1 / 1000000000000)
          + B * 2 / 10000000 + B / 10000000"
    using e by (intro add_mono)
  also have "\<dots> \<le> B / 1000000 + 1 / 10000000"
    using B0 by (simp add: field_simps)
  finally have "\<bar>X - (P0 + Q0)\<bar> \<le> B / 1000000 + 1 / 10000000"
    using tri by linarith
  then show ?thesis
    by (simp only: fadd_def fmul_def c_def P0_def Q0_def P_def Q_def p_def q_def X_def)
qed

lemma ema_nonneg:
  assumes A: "A = fl a" and a: "0 \<le> a" "a \<le> 1 / 2" and v: "0 \<le> v" and w: "0 \<le> w"
  shows "0 \<le> fadd (fmul (fsub 1 A) v) (fmul A w)"
proof -
  have A0: "0 \<le> A" unfolding A using a(1) by (rule fl_nonneg)
  have "\<bar>A - a\<bar> \<le> 1 / 10000000" unfolding A using a by (intro fl_small) simp
  then have A1: "A \<le> 1" using a by linarith
  have c0: "0 \<le> fsub 1 A" unfolding fsub_def using A1 by (intro fl_nonneg) simp
  show ?thesis
    unfolding fadd_def fmul_def
    using A0 c0 v w by (intro fl_nonneg add_nonneg_nonneg mult_nonneg_nonneg)
qed


lemma to_float_range: "\<bar>to_float w\<bar> \<le> 32768"
proof -
  have "- (2 ^ (LENGTH(16) - 1)) \<le> sint w" by (rule sint_ge)
  moreover have "sint w < 2 ^ (LENGTH(16) - 1)" by (rule sint_lt)
  ultimately have "- 32768 \<le> sint w" "sint w \<le> 32768" by simp_all
  then have "real_of_int (- 32768) \<le> real_of_int (sint w)"
    "real_of_int (sint w) \<le> real_of_int 32768"
    by (simp_all only: of_int_le_iff)
  then have "- 32768 \<le> real_of_int (sint w)" "real_of_int (sint w) \<le> 32768"
    by (simp_all only: of_int_numeral of_int_minus)
  then show ?thesis unfolding to_float_def by linarith
qed

lemma square_range: "\<bar>a\<bar> \<le> 32768 \<Longrightarrow> 0 \<le> a * a \<and> a * a \<le> (1073741824::real)"
proof -
  assume a: "\<bar>a\<bar> \<le> 32768"
  have "a * a = \<bar>a\<bar> * \<bar>a\<bar>" by simp
  also have "\<dots> \<le> 32768 * 32768" using a by (intro mult_mono) simp_all
  finally show ?thesis by simp
qed

lemma sumsq_float:
  fixes a b c :: real
  assumes "\<bar>a\<bar> \<le> 32768" "\<bar>b\<bar> \<le> 32768" "\<bar>c\<bar> \<le> 32768"
  shows "0 \<le> fadd (fadd (fmul a a) (fmul b b)) (fmul c c)"
    and "\<bar>fadd (fadd (fmul a a) (fmul b b)) (fmul c c) - (a * a + b * b + c * c)\<bar> \<le> 1285"
proof -
  define A where "A = a * a"
  define B where "B = b * b"
  define C where "C = c * c"
  have r: "0 \<le> A" "A \<le> 1073741824" "0 \<le> B" "B \<le> 1073741824" "0 \<le> C" "C \<le> 1073741824"
    using square_range assms by (simp_all add: A_def B_def C_def)
  define A' where "A' = fl A"
  define B' where "B' = fl B"
  define C' where "C' = fl C"
  have e: "\<bar>A' - A\<bar> \<le> 257" "\<bar>B' - B\<bar> \<le> 257" "\<bar>C' - C\<bar> \<le> 257"
    unfolding A'_def B'_def C'_def using r by (intro fl_big; simp)+
  have n: "0 \<le> A'" "0 \<le> B'" "0 \<le> C'"
    unfolding A'_def B'_def C'_def using r by (intro fl_nonneg; simp)+
  define U where "U = fl (A' + B')"
  have "\<bar>A' + B'\<bar> \<le> 4294967296" using e r by linarith
  then have eU: "\<bar>U - (A' + B')\<bar> \<le> 257" unfolding U_def by (rule fl_big)
  have nU: "0 \<le> U" unfolding U_def using n by (intro fl_nonneg) simp
  define T where "T = fl (U + C')"
  have "\<bar>U + C'\<bar> \<le> 4294967296" using e r eU by linarith
  then have eT: "\<bar>T - (U + C')\<bar> \<le> 257" unfolding T_def by (rule fl_big)
  have nT: "0 \<le> T" unfolding T_def using n nU by (intro fl_nonneg) simp
  have T: "fadd (fadd (fmul a a) (fmul b b)) (fmul c c) = T"
    by (simp only: fadd_def fmul_def T_def U_def A'_def B'_def C'_def A_def B_def C_def)
  show "0 \<le> fadd (fadd (fmul a a) (fmul b b)) (fmul c c)" unfolding T by (rule nT)
  have "\<bar>T - (A + B + C)\<bar> \<le> 1285" using e eU eT by linarith
  then show "\<bar>fadd (fadd (fmul a a) (fmul b b)) (fmul c c) - (a * a + b * b + c * c)\<bar> \<le> 1285"
    unfolding T by (simp only: A_def B_def C_def)
qed

lemma magnitude_range: "0 \<le> magnitude x y z \<and> magnitude x y z \<le> 60000"
proof -
  define T where "T = fadd (fadd (fmul (to_float x) (to_float x)) (fmul (to_float y) (to_float y)))
                 (fmul (to_float z) (to_float z))"
  define S where "S = to_float x * to_float x + to_float y * to_float y + to_float z * to_float z"
  have T0: "0 \<le> T" and TS: "\<bar>T - S\<bar> \<le> 1285"
    unfolding T_def S_def by (rule sumsq_float [OF to_float_range to_float_range to_float_range])+
  have "S \<le> 1073741824 + 1073741824 + 1073741824"
    unfolding S_def using square_range [OF to_float_range [of x]]
      square_range [OF to_float_range [of y]] square_range [OF to_float_range [of z]]
    by (intro add_mono) simp_all
  then have "T \<le> 56760\<^sup>2" using TS by (simp add: power2_eq_square)
  then have u: "sqrt T \<le> 56760" by (intro real_le_lsqrt) simp_all
  have l: "0 \<le> sqrt T" using T0 by simp
  have "\<bar>fl (sqrt T) - sqrt T\<bar> \<le> 1 / 50" using u l by (intro fl_mid) simp
  then have "fl (sqrt T) \<le> 60000" using u by linarith
  moreover have "0 \<le> fl (sqrt T)" using l by (rule fl_nonneg)
  ultimately show ?thesis by (simp only: magnitude_def fsqrt_def T_def)
qed

lemma magnitude_near:
  assumes L: "0 \<le> L" "L\<^sup>2 \<le> S - 1285" and U: "0 \<le> U" "S + 1285 \<le> U\<^sup>2" "U \<le> 262144"
    and S: "S = to_float x * to_float x + to_float y * to_float y + to_float z * to_float z"
  shows "L - 1 / 50 \<le> magnitude x y z \<and> magnitude x y z \<le> U + 1 / 50"
proof -
  define T where "T = fadd (fadd (fmul (to_float x) (to_float x)) (fmul (to_float y) (to_float y)))
                 (fmul (to_float z) (to_float z))"
  have T0: "0 \<le> T" and TS: "\<bar>T - S\<bar> \<le> 1285"
    unfolding T_def S by (rule sumsq_float [OF to_float_range to_float_range to_float_range])+
  have "L\<^sup>2 \<le> T" using L TS by linarith
  then have l: "L \<le> sqrt T" by (rule real_le_rsqrt)
  have "T \<le> U\<^sup>2" using U TS by linarith
  then have u: "sqrt T \<le> U" using U(1) by (intro real_le_lsqrt) simp_all
  have "\<bar>sqrt T\<bar> \<le> 262144" using u l L U by linarith
  then have "\<bar>fl (sqrt T) - sqrt T\<bar> \<le> 1 / 50" by (rule fl_mid)
  then have "L - 1 / 50 \<le> fl (sqrt T) \<and> fl (sqrt T) \<le> U + 1 / 50" using l u by linarith
  then show ?thesis by (simp only: magnitude_def fsqrt_def T_def)
qed


lemma alpha_values:
  "MAG_ALPHA = fl (1 / 50)" "DYN_ALPHA = fl (1 / 4)" "NOISE_ALPHA = fl (1 / 100)"
  by (simp_all add: MAG_ALPHA_def DYN_ALPHA_def NOISE_ALPHA_def)

text \<open>One update of an initialised, inactive detector: every new value against its exact formula.\<close>

lemma update_bounds:
  fixes rx :: "u8 list" and ta tt :: u32
  assumes mpu: "hasMPU s" and init: "accInitialized s"
    and mg: "\<bar>magE s\<bar> \<le> 60004"
    and dy: "0 \<le> dynE s" "dynE s \<le> 5" and no: "0 \<le> noiseE s" "noiseE s \<le> 6"
    and sh: "shakeUntilMs s = 0"
  defines "u \<equiv> updateMotion rx ta tt s"
  defines "m \<equiv> magnitude (ax u) (ay u) (az u)"
  defines "dyn \<equiv> \<bar>fsub m (magE u)\<bar>"
  shows "\<bar>magE u - (49 / 50 * magE s + 1 / 50 * m)\<bar> \<le> 61 / 1000"
    and "\<bar>dyn - \<bar>m - magE u\<bar>\<bar> \<le> 1 / 100"
    and "\<bar>dynE u - (3 / 4 * dynE s + 1 / 4 * dyn)\<bar> \<le> max 5 dyn / 1000000 + 1 / 10000000"
    and "0 \<le> dynE u"
    and "\<bar>noiseE u - (99 / 100 * noiseE s + 1 / 100 * dynE u)\<bar>
           \<le> max 6 (dynE u) / 1000000 + 1 / 10000000"
    and "0 \<le> noiseE u"
    and "shakeUntilMs u =
           (if max (fmul (noiseE u) NOISE_MULT) 70 < dynE u then tt + SHAKE_HOLD_MS else 0)"
proof -
  have mr: "0 \<le> m" "m \<le> 60000" unfolding m_def using magnitude_range by simp_all
  have m': "magnitude (ax (readMPU6050Raw rx s)) (ay (readMPU6050Raw rx s))
                      (az (readMPU6050Raw rx s)) = m"
    using mpu by (simp add: m_def u_def updateMotion_axes)
  have magE: "magE u = fadd (fmul (fsub 1 MAG_ALPHA) (magE s)) (fmul MAG_ALPHA m)"
    unfolding u_def m' [symmetric] using mpu init by (simp add: updateMotion_magE)
  have "\<bar>magE u - ((1 - 1 / 50) * magE s + 1 / 50 * m)\<bar> \<le> 60004 / 1000000 + 1 / 10000000"
    unfolding magE using mg mr by (intro ema_rel alpha_values) simp_all
  then show a: "\<bar>magE u - (49 / 50 * magE s + 1 / 50 * m)\<bar> \<le> 61 / 1000" by simp
  have "\<bar>m - magE u\<bar> \<le> 131072" using a mg mr by linarith
  then have "\<bar>fsub m (magE u) - (m - magE u)\<bar> \<le> 131072 / 16777216 + 1 / 1000000000000"
    unfolding fsub_def by (rule fl_rel)
  then show b: "\<bar>dyn - \<bar>m - magE u\<bar>\<bar> \<le> 1 / 100" unfolding dyn_def by linarith
  have d0: "0 \<le> dyn" by (simp add: dyn_def)
  have dynE: "dynE u = fadd (fmul (fsub 1 DYN_ALPHA) (dynE s)) (fmul DYN_ALPHA dyn)"
    unfolding dyn_def u_def m' [symmetric] using mpu init
    by (simp add: updateMotion_dynE [of rx ta tt s])
  have "\<bar>dynE u - ((1 - 1 / 4) * dynE s + 1 / 4 * dyn)\<bar> \<le> max 5 dyn / 1000000 + 1 / 10000000"
    unfolding dynE using dy d0 by (intro ema_rel alpha_values) simp_all
  then show "\<bar>dynE u - (3 / 4 * dynE s + 1 / 4 * dyn)\<bar> \<le> max 5 dyn / 1000000 + 1 / 10000000"
    by simp
  show e0: "0 \<le> dynE u"
    unfolding dynE using dy d0 by (intro ema_nonneg [OF alpha_values(2)]) simp_all
  have na: "\<not> isShakeActive ta s" using sh by (rule not_active_at_zero)
  have noise: "noiseE u = fadd (fmul (fsub 1 NOISE_ALPHA) (noiseE s)) (fmul NOISE_ALPHA (dynE u))"
    unfolding u_def using updateMotion_noise [of rx ta tt s]
    by (simp only: mpu init na simp_thms if_True if_False)
  have "\<bar>noiseE u - ((1 - 1 / 100) * noiseE s + 1 / 100 * dynE u)\<bar>
        \<le> max 6 (dynE u) / 1000000 + 1 / 10000000"
    unfolding noise using no e0 by (intro ema_rel alpha_values) simp_all
  then show "\<bar>noiseE u - (99 / 100 * noiseE s + 1 / 100 * dynE u)\<bar>
           \<le> max 6 (dynE u) / 1000000 + 1 / 10000000"
    by simp
  show "0 \<le> noiseE u"
    unfolding noise using no e0 by (intro ema_nonneg [OF alpha_values(3)]) simp_all
  have "shakeUntilMs u =
          (if max (fmul (noiseE u) NOISE_MULT) (real_of_int MIN_QUAKE_COUNTS) < dynE u
           then tt + SHAKE_HOLD_MS else shakeUntilMs s)"
    unfolding u_def using updateMotion_shake [of rx ta tt s]
    by (simp only: mpu init simp_thms if_True if_False)
  then show "shakeUntilMs u =
           (if max (fmul (noiseE u) NOISE_MULT) 70 < dynE u then tt + SHAKE_HOLD_MS else 0)"
    by (simp add: sh MIN_QUAKE_COUNTS_def)
qed


lemma steady_uninitialized: "uninitialized s \<Longrightarrow> steady rx s"
  by (simp add: steady_def uninitialized_def)

lemma steady_step:
  assumes st: "steady rx s"
  shows "steady rx (updateMotion rx ta tt s)"
proof (cases "hasMPU s")
  case False
  then have "updateMotion rx ta tt s = s" by (simp add: updateMotion_def)
  with st show ?thesis by simp
next
  case mpu: True
  define u where "u = updateMotion rx ta tt s"
  have z: "shakeUntilMs s = 0" "0 \<le> dynE s" "dynE s \<le> 5" "0 \<le> noiseE s" "noiseE s \<le> 6"
    using st by (simp_all add: steady_def)
  have axes: "ax (readMPU6050Raw rx u) = ax u" "ay (readMPU6050Raw rx u) = ay u"
             "az (readMPU6050Raw rx u) = az u"
    unfolding u_def using mpu by (simp_all add: read_axes updateMotion_axes)
  have init: "accInitialized u" unfolding u_def using mpu by (simp add: updateMotion_init)
  show ?thesis
  proof (cases "accInitialized s")
    case False
    have "magE u = magnitude (ax u) (ay u) (az u)" "dynE u = 0" "noiseE u = 0"
      "shakeUntilMs u = 0"
      unfolding u_def using mpu False z
      by (simp_all add: updateMotion_magE updateMotion_axes updateMotion_dynE
            updateMotion_noise updateMotion_shake)
    then have "steady rx u" using axes by (simp add: steady_def)
    then show ?thesis by (simp only: u_def)
  next
    case True
    define M where "M = magnitude (ax s) (ay s) (az s)"
    have same: "ax (readMPU6050Raw rx s) = ax s" "ay (readMPU6050Raw rx s) = ay s"
      "az (readMPU6050Raw rx s) = az s" and mag: "\<bar>magE s - M\<bar> \<le> 4"
      using st True by (simp_all add: steady_def M_def)
    have Mr: "0 \<le> M" "M \<le> 60000" unfolding M_def using magnitude_range by simp_all
    have mg: "\<bar>magE s\<bar> \<le> 60004" using mag Mr by linarith
    have m: "magnitude (ax u) (ay u) (az u) = M"
      unfolding u_def M_def using mpu same by (simp add: updateMotion_axes)
    define dyn where "dyn = \<bar>fsub M (magE u)\<bar>"
    note b = update_bounds [OF mpu True mg z(2,3,4,5,1), of rx ta tt,
        folded u_def, unfolded m, folded dyn_def]
    have m1: "\<bar>magE u - M\<bar> \<le> 4" using b(1) mag by linarith
    have d1: "dyn \<le> 41 / 10" using b(2) m1 by linarith
    then have "max 5 dyn = 5" by simp
    then have "\<bar>dynE u - (3 / 4 * dynE s + 1 / 4 * dyn)\<bar> \<le> 5 / 1000000 + 1 / 10000000"
      using b(3) by simp
    then have e1: "dynE u \<le> 5" using d1 z by linarith
    then have "max 6 (dynE u) = 6" by simp
    then have "\<bar>noiseE u - (99 / 100 * noiseE s + 1 / 100 * dynE u)\<bar>
               \<le> 6 / 1000000 + 1 / 10000000"
      using b(5) by simp
    then have n1: "noiseE u \<le> 6" using e1 z by linarith
    have "\<not> max (fmul (noiseE u) NOISE_MULT) 70 < dynE u" using e1 by simp
    then have s1: "shakeUntilMs u = 0" using b(7) by (simp only: if_False)
    have "steady rx u"
      unfolding steady_def using axes m1 e1 n1 s1 b(4) b(6) by (simp add: m)
    then show ?thesis by (simp only: u_def)
  qed
qed


lemma steady_feed:
  "steady rx s \<Longrightarrow> \<forall>step\<in>set steps. fst step = rx \<Longrightarrow> steady rx (feed steps s)"
proof (induction steps arbitrary: s)
  case Nil
  then show ?case by simp
next
  case (Cons step steps)
  obtain r ta tt where step: "step = (r, ta, tt)" by (cases step) auto
  with Cons.prems have "r = rx" by simp
  with Cons step show ?case by (simp add: steady_step)
qed






text \<open>
  One update of a steady detector with a new sample: the hold time is set when the
  magnitudes differ by 300 counts or more, and is not set when they differ by 265
  counts or less.
\<close>

lemma outlier_step:
  fixes rx' :: "u8 list" and ta tt :: u32
  assumes st: "steady rx s" and mpu: "hasMPU s" and init: "accInitialized s"
  defines "u \<equiv> updateMotion rx' ta tt s"
  defines "d \<equiv> \<bar>magnitude (ax u) (ay u) (az u) - magnitude (ax s) (ay s) (az s)\<bar>"
  shows "300 \<le> d \<Longrightarrow> shakeUntilMs u = tt + SHAKE_HOLD_MS"
    and "d \<le> 265 \<Longrightarrow> shakeUntilMs u = 0"
proof -
  define M where "M = magnitude (ax s) (ay s) (az s)"
  define m where "m = magnitude (ax u) (ay u) (az u)"
  define dyn where "dyn = \<bar>fsub m (magE u)\<bar>"
  have z: "shakeUntilMs s = 0" "0 \<le> dynE s" "dynE s \<le> 5" "0 \<le> noiseE s" "noiseE s \<le> 6"
    and mag: "\<bar>magE s - M\<bar> \<le> 4"
    using st init by (simp_all add: steady_def M_def)
  have Mr: "0 \<le> M" "M \<le> 60000" unfolding M_def using magnitude_range by simp_all
  have mr: "0 \<le> m" "m \<le> 60000" unfolding m_def using magnitude_range by simp_all
  have mg: "\<bar>magE s\<bar> \<le> 60004" using mag Mr by linarith
  have dd: "d = \<bar>m - M\<bar>" by (simp only: d_def m_def M_def)
  note b = update_bounds [OF mpu init mg z(2,3,4,5,1), of rx' ta tt,
      folded u_def, folded m_def, folded dyn_def]
  have d0: "0 \<le> dyn" by (simp add: dyn_def)
  have dynle: "dyn \<le> 131072" using b(1) b(2) mg mr by linarith
  show "shakeUntilMs u = tt + SHAKE_HOLD_MS" if "300 \<le> d"
  proof -
    have "290 \<le> \<bar>m - magE u\<bar>" using that dd b(1) mag by linarith
    then have l: "289 \<le> dyn" using b(2) by linarith
    then have "max 5 dyn = dyn" by simp
    then have "\<bar>dynE u - (3 / 4 * dynE s + 1 / 4 * dyn)\<bar> \<le> dyn / 1000000 + 1 / 10000000"
      using b(3) by simp
    then have e: "72 \<le> dynE u" "dynE u \<le> 40000" using l z dynle by linarith+
    then have "max 6 (dynE u) = dynE u" by simp
    then have "\<bar>noiseE u - (99 / 100 * noiseE s + 1 / 100 * dynE u)\<bar>
               \<le> dynE u / 1000000 + 1 / 10000000"
      using b(5) by simp
    then have n: "noiseE u \<le> 6 + dynE u / 50" using z e by linarith
    have "\<bar>noiseE u * 5\<bar> \<le> 4096" using n b(6) e by linarith
    then have "\<bar>fl (noiseE u * 5) - noiseE u * 5\<bar> \<le> 4096 / 16777216 + 1 / 1000000000000"
      by (rule fl_rel)
    then have "fmul (noiseE u) NOISE_MULT < dynE u"
      unfolding fmul_def NOISE_MULT_def using n e by linarith
    then have "max (fmul (noiseE u) NOISE_MULT) 70 < dynE u" using e by simp
    then show ?thesis using b(7) by (simp only: if_True)
  qed
  show "shakeUntilMs u = 0" if "d \<le> 265"
  proof -
    have "\<bar>m - magE u\<bar> \<le> 264" using that dd b(1) mag by linarith
    then have l: "dyn \<le> 265" using b(2) by linarith
    then have "max 5 dyn \<le> 265" by simp
    then have "max 5 dyn / 1000000 + 1 / 10000000 \<le> 1 / 1000" by simp
    then have "\<bar>dynE u - (3 / 4 * dynE s + 1 / 4 * dyn)\<bar> \<le> 1 / 1000"
      using b(3) by linarith
    moreover have "\<bar>m - magE u\<bar> \<le> 49 / 50 * 269 + 61 / 1000" using that dd b(1) mag by linarith
    ultimately have "dynE u < 70" using b(2) z by linarith
    then have "\<not> max (fmul (noiseE u) NOISE_MULT) 70 < dynE u" by simp
    then show ?thesis using b(7) by (simp only: if_False)
  qed
qed










lemma be16_values:
  "to_float (be16 0 0) = 0" "to_float (be16 0x40 0) = 16384"
  "to_float (be16 0x07 0xD0) = 2000" "to_float (be16 0x47 0xD0) = 18384"
  by (simp_all add: be16_def to_float_def)

lemma resting_axes:
  "to_float (ax resting) = 0" "to_float (ay resting) = 0" "to_float (az resting) = 16384"
  by (simp_all add: resting_def updateMotion_axes read_axes be16_values)


lemma axial_knock_axes:
  "to_float (ax axial_knock) = 0" "to_float (ay axial_knock) = 0"
  "to_float (az axial_knock) = 18384"
  by (simp_all add: axial_knock_def resting_def updateMotion_axes updateMotion_hasMPU
        read_axes be16_values)

lemma resting_steady:
  "steady [0, 0, 0, 0, 0x40, 0] resting" "hasMPU resting" "accInitialized resting"
proof -
  have u: "uninitialized (power_on\<lparr>hasMPU := True\<rparr>)"
    by (simp add: uninitialized_def power_on_def)
  show "steady [0, 0, 0, 0, 0x40, 0] resting"
    unfolding resting_def by (rule steady_feed [OF steady_uninitialized [OF u]]) simp
  show "hasMPU resting" by (simp add: resting_def updateMotion_hasMPU)
  show "accInitialized resting" by (simp add: resting_def updateMotion_init)
qed

lemma late_knock_axes:
  "to_float (ax late_knock) = 0" "to_float (ay late_knock) = 0"
  "to_float (az late_knock) = 18384"
  by (simp_all add: late_knock_def resting_def updateMotion_axes updateMotion_hasMPU
        read_axes be16_values)

lemma magnitude_resting:
  "16382 \<le> magnitude (ax resting) (ay resting) (az resting)"
  "magnitude (ax resting) (ay resting) (az resting) \<le> 16386"
proof -
  have S: "268435456 = to_float (ax resting) * to_float (ax resting)
      + to_float (ay resting) * to_float (ay resting)
      + to_float (az resting) * to_float (az resting)"
    by (simp only: resting_axes)
  have "16383 - 1 / 50 \<le> magnitude (ax resting) (ay resting) (az resting)
        \<and> magnitude (ax resting) (ay resting) (az resting) \<le> 16385 + 1 / 50"
    by (rule magnitude_near [OF _ _ _ _ _ S]) (simp_all add: power2_eq_square)
  then show "16382 \<le> magnitude (ax resting) (ay resting) (az resting)"
    "magnitude (ax resting) (ay resting) (az resting) \<le> 16386"
    by linarith+
qed

lemma magnitude_axial:
  "18382 \<le> magnitude (ax axial_knock) (ay axial_knock) (az axial_knock)"
  "18382 \<le> magnitude (ax late_knock) (ay late_knock) (az late_knock)"
proof -
  have S: "337971456 = to_float (ax axial_knock) * to_float (ax axial_knock)
      + to_float (ay axial_knock) * to_float (ay axial_knock)
      + to_float (az axial_knock) * to_float (az axial_knock)"
    by (simp only: axial_knock_axes)
  have "18383 - 1 / 50 \<le> magnitude (ax axial_knock) (ay axial_knock) (az axial_knock)
        \<and> magnitude (ax axial_knock) (ay axial_knock) (az axial_knock) \<le> 18385 + 1 / 50"
    by (rule magnitude_near [OF _ _ _ _ _ S]) (simp_all add: power2_eq_square)
  then show "18382 \<le> magnitude (ax axial_knock) (ay axial_knock) (az axial_knock)"
    by linarith
  have S': "337971456 = to_float (ax late_knock) * to_float (ax late_knock)
      + to_float (ay late_knock) * to_float (ay late_knock)
      + to_float (az late_knock) * to_float (az late_knock)"
    by (simp only: late_knock_axes)
  have "18383 - 1 / 50 \<le> magnitude (ax late_knock) (ay late_knock) (az late_knock)
        \<and> magnitude (ax late_knock) (ay late_knock) (az late_knock) \<le> 18385 + 1 / 50"
    by (rule magnitude_near [OF _ _ _ _ _ S']) (simp_all add: power2_eq_square)
  then show "18382 \<le> magnitude (ax late_knock) (ay late_knock) (az late_knock)"
    by linarith
qed





section \<open>Elapsed-time checks\<close>

text \<open>
  The page rotation and the report cadence of \<open>loop()\<close> compare the difference
  \<open>now - last\<close> of two 32-bit readings of the clock with the interval. When \<open>d\<close>
  milliseconds (fewer than 2^32) have passed since \<open>last\<close>, the check holds exactly when
  \<open>d\<close> has reached the interval, whether or not the counter wrapped in between.
\<close>

lemma elapsed_by_subtraction:
  fixes last interval :: u32
  assumes "d < 2 ^ 32"
  shows "(last + of_nat d) - last \<ge> interval \<longleftrightarrow> d \<ge> unat interval"
proof -
  have "unat (of_nat d :: u32) = d" using assms by (simp add: unat_of_nat)
  then show ?thesis by (simp add: word_le_nat_alt)
qed

lemma updateMotion_timers:
  "lastPageMs (updateMotion rx ta tt s) = lastPageMs s"
  "lastSendMs (updateMotion rx ta tt s) = lastSendMs s"
  by (simp_all add: updateMotion_def Let_def readMPU6050Raw_def)

lemma readAHT10_timers:
  "lastPageMs (readAHT10 rx s) = lastPageMs s"
  "lastSendMs (readAHT10 rx s) = lastSendMs s"
  by (simp_all add: readAHT10_def Let_def)

lemma loop_page_timer:
  assumes "d < 2 ^ 32" and "now e = lastPageMs s + of_nat d"
  shows "lastPageMs (fst (loop String_float e s)) = (if 3000 \<le> d then now e else lastPageMs s)"
proof -
  have "now e - lastPageMs s \<ge> OLED_PAGE_INTERVAL_MS \<longleftrightarrow> d \<ge> 3000"
    using elapsed_by_subtraction [OF assms(1), of OLED_PAGE_INTERVAL_MS "lastPageMs s"] assms(2)
    by (simp add: OLED_PAGE_INTERVAL_MS_def)
  then show ?thesis
    by (simp add: loop_def Let_def updateMotion_timers readAHT10_timers)
qed

lemma loop_send_timer:
  assumes "d < 2 ^ 32" and "now e = lastSendMs s + of_nat d"
  shows "lastSendMs (fst (loop String_float e s)) = (if 5000 \<le> d then now e else lastSendMs s)"
    and "d < 5000 \<Longrightarrow> snd (loop String_float e s) = None"
proof -
  have c: "now e - lastSendMs s \<ge> THINGSPEAK_SEND_INTERVAL_MS \<longleftrightarrow> d \<ge> 5000"
    using elapsed_by_subtraction [OF assms(1), of THINGSPEAK_SEND_INTERVAL_MS "lastSendMs s"]
      assms(2)
    by (simp add: THINGSPEAK_SEND_INTERVAL_MS_def)
  show "lastSendMs (fst (loop String_float e s)) = (if 5000 \<le> d then now e else lastSendMs s)"
    using c by (simp add: loop_def Let_def updateMotion_timers readAHT10_timers)
  show "d < 5000 \<Longrightarrow> snd (loop String_float e s) = None"
    using c by (simp add: loop_def Let_def updateMotion_timers readAHT10_timers)
qed

text \<open>
  C6 does not hold for the active window of the detector. \<open>updateMotion\<close> stores the
  end of the window, \<open>millis() + SHAKE_HOLD_MS\<close>, and \<open>isShakeActive\<close> compares the clock
  with it directly. A knock at clock reading 4294967196 (100 ms before the wrap) sets
  \<open>shakeUntilMs\<close> to 200; one millisecond later the difference of the clock readings is
  1, less than the hold time of 300, and \<open>isShakeActive\<close> is false.
\<close>

theorem shake_window_lost_at_wraparound:
  "shakeUntilMs late_knock = 200
   \<and> \<not> isShakeActive 0xFFFFFF9D late_knock
   \<and> (0xFFFFFF9D :: u32) - 0xFFFFFF9C < SHAKE_HOLD_MS"
proof -
  have "300 \<le> \<bar>magnitude (ax late_knock) (ay late_knock) (az late_knock)
              - magnitude (ax resting) (ay resting) (az resting)\<bar>"
    using magnitude_axial(2) magnitude_resting(2) by linarith
  then have s: "shakeUntilMs late_knock = 0xFFFFFF9C + SHAKE_HOLD_MS"
    unfolding late_knock_def by (rule outlier_step(1) [OF resting_steady])
  show ?thesis by (simp add: s isShakeActive_def SHAKE_HOLD_MS_def)
qed

section \<open>Properties of the report encoder\<close>

lemma has_substr_prefix: "prefix p xs \<Longrightarrow> has_substr p xs"
  by (cases xs) auto

lemma has_substr_skip: "has_substr p ys \<Longrightarrow> has_substr p (xs @ ys)"
  by (induction xs) auto

lemma has_substr_mid: "has_substr p (xs @ p @ ys)"
  by (rule has_substr_skip) (simp add: has_substr_prefix)

lemma has_substr_no_first:
  "c \<notin> set xs \<Longrightarrow> has_substr (c # k) (xs @ ys) = has_substr (c # k) ys"
  by (induction xs) auto

lemma has_substr_no_first_end: "c \<notin> set xs \<Longrightarrow> \<not> has_substr (c # k) xs"
  using has_substr_no_first [of c xs k "[]"] by simp

lemma digit_char_not_amp: "digit_char d \<noteq> CHR ''&''" "CHR ''&'' \<noteq> digit_char d"
  by (simp_all add: digit_char_def)

lemma dec_nat_no_amp: "CHR ''&'' \<notin> set (dec_nat n)"
proof (induction n rule: dec_nat.induct)
  case (1 n)
  show ?case
  proof (cases "n < 10")
    case True
    then show ?thesis by (simp add: dec_nat.simps [of n] digit_char_not_amp)
  next
    case False
    with 1 show ?thesis by (simp add: dec_nat.simps [of n] digit_char_not_amp)
  qed
qed

lemma String_int_no_amp: "CHR ''&'' \<notin> set (String_int n)"
  by (simp add: String_int_def dec_nat_no_amp)

lemma String_int_bit: "String_int 0 = ''0''" "String_int 1 = ''1''"
  by (simp_all add: String_int_def dec_nat.simps [of 0] dec_nat.simps [of "Suc 0"] digit_char_def)

lemma url_head_no_amp: "CHR ''&'' \<notin> set url_head"
  by (simp add: url_head_def THINGSPEAK_URL_def THINGSPEAK_API_KEY_def)

lemma send_url:
  "sendToThingSpeak String_float True t s =
     Some (url_head
           @ (if hasAHT s then ''&field1='' @ String_float (tempC s)
                               @ ''&field2='' @ String_float (humP s) else [])
           @ ''&field3='' @ String_int (calcAirPct s (mqRaw s))
           @ ''&field4='' @ (if isShakeActive t s then ''1'' else ''0'')
           @ ''&field5='' @ String_int (mqRaw s))"
  by (simp add: sendToThingSpeak_def Let_def url_head_def String_int_bit)

lemma send_not_connected: "sendToThingSpeak String_float False t s = None"
  by (simp add: sendToThingSpeak_def)


lemma prefix_same_length: "length k = length name \<Longrightarrow> prefix k (name @ rest) \<longleftrightarrow> k = name"
  by (metis append_eq_append_conv prefix_def prefixI)

lemma skip_field:
  assumes "length k = length name" "k \<noteq> name" "CHR ''&'' \<notin> set name" "CHR ''&'' \<notin> set v"
  shows "has_substr (CHR ''&'' # k) ((CHR ''&'' # name @ v) @ ys) = has_substr (CHR ''&'' # k) ys"
proof -
  have "\<not> prefix k (name @ v @ ys)"
    using assms(1,2) by (simp add: prefix_same_length)
  then have "has_substr (CHR ''&'' # k) ((CHR ''&'' # name @ v) @ ys)
             = has_substr (CHR ''&'' # k) ((name @ v) @ ys)"
    by simp
  also have "\<dots> = has_substr (CHR ''&'' # k) ys"
    using assms(3,4) by (intro has_substr_no_first) simp
  finally show ?thesis .
qed

lemma no_other_field:
  assumes "length k = 7" "k \<noteq> ''field3=''" "k \<noteq> ''field4=''" "k \<noteq> ''field5=''"
    and "CHR ''&'' \<notin> set v3" "CHR ''&'' \<notin> set v4" "CHR ''&'' \<notin> set v5"
  shows "\<not> has_substr (CHR ''&'' # k)
           (url_head @ (''&field3='' @ v3) @ (''&field4='' @ v4) @ (''&field5='' @ v5))"
proof -
  have "has_substr (CHR ''&'' # k)
           (url_head @ (''&field3='' @ v3) @ (''&field4='' @ v4) @ (''&field5='' @ v5))
        = has_substr (CHR ''&'' # k) ((''&field3='' @ v3) @ (''&field4='' @ v4) @ (''&field5='' @ v5))"
    by (rule has_substr_no_first [OF url_head_no_amp])
  also have "\<dots> = has_substr (CHR ''&'' # k) ((''&field4='' @ v4) @ (''&field5='' @ v5))"
    using skip_field [of k "''field3=''" v3 "(''&field4='' @ v4) @ (''&field5='' @ v5)"] assms
    by simp
  also have "\<dots> = has_substr (CHR ''&'' # k) ((''&field5='' @ v5) @ [])"
    using skip_field [of k "''field4=''" v4 "(''&field5='' @ v5) @ []"] assms
    by simp
  also have "\<dots> = has_substr (CHR ''&'' # k) []"
    using skip_field [of k "''field5=''" v5 "[]"] assms
    by simp
  finally show ?thesis by simp
qed

lemma sample_state_pct: "calcAirPct sample_state 225 = 50"
proof -
  have "int32 125 = 125" "int32 250 = 250" "int32 12500 = 12500" "int32 50 = 50"
    by (simp_all add: int32_id)
  then show ?thesis
    by (simp add: calcAirPct_def sample_state_def constrain_def Let_def)
qed

lemma String_int_values: "String_int 50 = ''50''" "String_int 225 = ''225''"
  by (simp_all add: String_int_def dec_nat.simps [of 50] dec_nat.simps [of 5]
        dec_nat.simps [of 225] dec_nat.simps [of 22] dec_nat.simps [of 2] digit_char_def)

text \<open>
  C9. Whenever \<open>sendToThingSpeak\<close> requests a URL (it requests none when the WiFi link
  is down), in every state: the URL contains the keys \<open>&field1=\<close> and \<open>&field2=\<close> if and
  only if \<open>hasAHT\<close> holds, and then with the temperature and the humidity as their
  values; it always contains \<open>&field3=\<close> with the air-quality percentage,
  \<open>&field4=\<close> with 1 or 0 for the shake flag, and \<open>&field5=\<close> with the raw gas reading.
\<close>

theorem report_url_fields:
  assumes "sendToThingSpeak String_float link t s = Some url"
  shows "(has_substr ''&field1='' url \<longleftrightarrow> hasAHT s)
       \<and> (has_substr ''&field2='' url \<longleftrightarrow> hasAHT s)
       \<and> (hasAHT s \<longrightarrow> has_substr (''&field1='' @ String_float (tempC s)) url
                       \<and> has_substr (''&field2='' @ String_float (humP s)) url)
       \<and> has_substr (''&field3='' @ String_int (calcAirPct s (mqRaw s))) url
       \<and> has_substr (''&field4='' @ (if isShakeActive t s then ''1'' else ''0'')) url
       \<and> has_substr (''&field5='' @ String_int (mqRaw s)) url"
proof -
  have conn: "link" using assms by (cases link) (simp_all add: send_not_connected)
  define v3 where "v3 = String_int (calcAirPct s (mqRaw s))"
  define v4 where "v4 = (if isShakeActive t s then ''1'' else ''0'')"
  define v5 where "v5 = String_int (mqRaw s)"
  define f1 where "f1 = ''&field1='' @ String_float (tempC s)"
  define f2 where "f2 = ''&field2='' @ String_float (humP s)"
  define f3 where "f3 = ''&field3='' @ v3"
  define f4 where "f4 = ''&field4='' @ v4"
  define f5 where "f5 = ''&field5='' @ v5"
  have "Some url = sendToThingSpeak String_float True t s"
    using assms conn by simp
  also have "\<dots> = Some (url_head @ (if hasAHT s then f1 @ f2 else []) @ f3 @ f4 @ f5)"
    by (simp add: send_url f1_def f2_def f3_def f4_def f5_def v3_def v4_def v5_def)
  finally have url: "url = url_head @ (if hasAHT s then f1 @ f2 else []) @ f3 @ f4 @ f5"
    by simp
  have p3: "has_substr f3 url" unfolding url
    using has_substr_mid [of f3 "url_head @ (if hasAHT s then f1 @ f2 else [])" "f4 @ f5"] by simp
  have p4: "has_substr f4 url" unfolding url
    using has_substr_mid [of f4 "url_head @ (if hasAHT s then f1 @ f2 else []) @ f3" f5] by simp
  have p5: "has_substr f5 url" unfolding url
    using has_substr_mid [of f5 "url_head @ (if hasAHT s then f1 @ f2 else []) @ f3 @ f4" "[]"]
    by simp
  have p1: "has_substr f1 url" if "hasAHT s"
    unfolding url using that has_substr_mid [of f1 url_head "f2 @ f3 @ f4 @ f5"] by simp
  have p2: "has_substr f2 url" if "hasAHT s"
    unfolding url using that has_substr_mid [of f2 "url_head @ f1" "f3 @ f4 @ f5"] by simp
  have k1: "has_substr ''&field1='' url" if "hasAHT s"
    unfolding url using that
      has_substr_mid [of "''&field1=''" url_head "String_float (tempC s) @ f2 @ f3 @ f4 @ f5"]
    by (simp add: f1_def)
  have k2: "has_substr ''&field2='' url" if "hasAHT s"
    unfolding url using that
      has_substr_mid [of "''&field2=''" "url_head @ f1" "String_float (humP s) @ f3 @ f4 @ f5"]
    by (simp add: f2_def)
  have amp: "CHR ''&'' \<notin> set v3" "CHR ''&'' \<notin> set v4" "CHR ''&'' \<notin> set v5"
    by (simp_all add: v3_def v4_def v5_def String_int_no_amp)
  have n1: "\<not> has_substr ''&field1='' url" if "\<not> hasAHT s"
    unfolding url f3_def f4_def f5_def using that
      no_other_field [of "''field1=''" v3 v4 v5] amp by simp
  have n2: "\<not> has_substr ''&field2='' url" if "\<not> hasAHT s"
    unfolding url f3_def f4_def f5_def using that
      no_other_field [of "''field2=''" v3 v4 v5] amp by simp
  show ?thesis
    using p1 p2 p3 p4 p5 k1 k2 n1 n2 unfolding f1_def f2_def f3_def f4_def f5_def v3_def v4_def v5_def
    by blast
qed

theorem report_url_fields_witness:
  "\<not> has_substr ''&field1=''
       ''http://api.thingspeak.com/update?api_key=YOUR_THINGSPEAK_WRITE_API&field3=50&field4=0&field5=225''
   \<and> has_substr ''&field3=50''
       ''http://api.thingspeak.com/update?api_key=YOUR_THINGSPEAK_WRITE_API&field3=50&field4=0&field5=225''
   \<and> has_substr ''&field1=''
       ''http://api.thingspeak.com/update?api_key=YOUR_THINGSPEAK_WRITE_API&field1=25.0&field2=25.0&field3=50&field4=0&field5=225''"
proof -
  let ?u = "''http://api.thingspeak.com/update?api_key=YOUR_THINGSPEAK_WRITE_API&field3=50&field4=0&field5=225''"
  let ?w = "''http://api.thingspeak.com/update?api_key=YOUR_THINGSPEAK_WRITE_API&field1=25.0&field2=25.0&field3=50&field4=0&field5=225''"
  have raw: "mqRaw sample_state = 225" "\<not> hasAHT sample_state" "\<not> isShakeActive 0 sample_state"
    by (simp_all add: sample_state_def power_on_def isShakeActive_def)
  have u: "sendToThingSpeak (\<lambda>x. ''25.0'') True 0 sample_state = Some ?u"
    by (simp add: send_url raw sample_state_pct String_int_values url_head_def
          THINGSPEAK_URL_def THINGSPEAK_API_KEY_def)
  have raw': "mqRaw (sample_state\<lparr>hasAHT := True\<rparr>) = 225" "hasAHT (sample_state\<lparr>hasAHT := True\<rparr>)"
    "\<not> isShakeActive 0 (sample_state\<lparr>hasAHT := True\<rparr>)"
    "calcAirPct (sample_state\<lparr>hasAHT := True\<rparr>) 225 = calcAirPct sample_state 225"
    by (simp_all add: sample_state_def power_on_def isShakeActive_def calcAirPct_def)
  have w: "sendToThingSpeak (\<lambda>x. ''25.0'') True 0 (sample_state\<lparr>hasAHT := True\<rparr>) = Some ?w"
    by (simp add: send_url raw' sample_state_pct String_int_values url_head_def
          THINGSPEAK_URL_def THINGSPEAK_API_KEY_def)
  have a: "\<not> has_substr ''&field1='' ?u" "has_substr (''&field3='' @ ''50'') ?u"
    using report_url_fields [OF u] raw
    by (simp_all only: sample_state_pct String_int_values simp_thms)
  have b: "has_substr ''&field1='' ?w"
    using report_url_fields [OF w] raw' by (simp only: simp_thms)
  show ?thesis using a b by simp
qed

end
